theory Spec2Isabelle
  imports Main "HOL-Library.Sublist"
begin

text \<open>
  The DDS/JSON converters of \<open>profound-utils\<close>: \<open>chunkData\<close> (shared utilities),
  \<open>getFormatsFromSrc\<close>, \<open>getBoundFields\<close> and \<open>getDdsFromSrc\<close> (\<open>ddsToJson\<close>),
  \<open>htmlObjToDdsLines\<close> and \<open>conversionV1\<close> (\<open>jsonToDds\<close>), and the handling of the sequence
  and date prefix in the three \<open>main\<close> functions. A document is the list of its lines.
  A promise that is rejected is a result \<open>Inl\<close> of the exception; a call that does not return
  is \<open>None\<close>. File access, logging and the command line are left out.
\<close>

section \<open>JavaScript string primitives\<close>

text \<open>
  A JavaScript string is modelled as a \<^typ>\<open>string\<close>, one \<^typ>\<open>char\<close> per code unit
  (documents are read in the single-byte range). Positions and lengths passed to
  \<open>substr\<close> and \<open>substring\<close> are JavaScript numbers and may be negative (\<open>lastIndexOf\<close>
  answers \<open>-1\<close>, \<open>79 - htmlOpen.length\<close> can fall below zero), so they are integers here.
\<close>

definition substr :: "string \<Rightarrow> int \<Rightarrow> int \<Rightarrow> string" where
  \<comment> \<open>\<open>s.substr(start, len)\<close>: a negative start counts from the end, a length below zero is empty.\<close>
  "substr s start len =
     (let n = int (length s);
          st = (if start < 0 then max (n + start) 0 else min start n);
          l = min (max len 0) (n - st)
      in take (nat l) (drop (nat st) s))"

definition substrFrom :: "string \<Rightarrow> int \<Rightarrow> string" where
  \<comment> \<open>\<open>s.substr(start)\<close>: to the end of the string.\<close>
  "substrFrom s start = substr s start (int (length s))"

definition substring :: "string \<Rightarrow> int \<Rightarrow> int \<Rightarrow> string" where
  \<comment> \<open>\<open>s.substring(a, b)\<close>: both ends clamped to \<open>[0, length]\<close>, then swapped when \<open>a > b\<close>.\<close>
  "substring s a b =
     (let n = int (length s);
          a' = min (max a 0) n;
          b' = min (max b 0) n
      in take (nat (max a' b' - min a' b')) (drop (nat (min a' b')) s))"

definition lastIndexOf :: "string \<Rightarrow> string \<Rightarrow> int" where
  \<comment> \<open>\<open>s.lastIndexOf(pat)\<close>: the greatest position where \<open>pat\<close> occurs, \<open>-1\<close> when there is none.\<close>
  "lastIndexOf s pat =
     (case filter (\<lambda>i. take (length pat) (drop i s) = pat) (rev [0 ..< Suc (length s)]) of
        [] \<Rightarrow> -1
      | i # _ \<Rightarrow> int i)"

definition quote :: char where
  "quote = CHR 0x27"

definition isWhiteSpace :: "char \<Rightarrow> bool" where
  \<comment> \<open>the white space and line terminators of \<open>trim\<close> and \<open>parseInt\<close>, in the single-byte range\<close>
  "isWhiteSpace c \<longleftrightarrow>
     c = CHR 0x09 \<or> c = CHR 0x0A \<or> c = CHR 0x0B \<or> c = CHR 0x0C \<or> c = CHR 0x0D
     \<or> c = CHR 0x20 \<or> c = CHR 0xA0"

definition trimRight :: "string \<Rightarrow> string" where
  "trimRight s = rev (dropWhile isWhiteSpace (rev s))"

definition trim :: "string \<Rightarrow> string" where
  "trim s = trimRight (dropWhile isWhiteSpace s)"

definition upperChar :: "char \<Rightarrow> char" where
  "upperChar c =
     (if (97::nat) \<le> of_char c \<and> (of_char c :: nat) \<le> 122 then char_of ((of_char c :: nat) - 32) else c)"

text \<open>
  \<open>String.prototype.toUpperCase\<close> is the case mapping of the host: it changes letters far
  beyond \<open>a\<close> to \<open>z\<close> and can change the length of a string. The converters reach it
  through a parameter \<open>toUpperCase\<close> of type \<^typ>\<open>string \<Rightarrow> string\<close>, so what is proved
  of them holds for every case mapping. \<open>toUpperCaseAscii\<close> is the instance used to run them on
  concrete documents; it is the host's mapping on strings of characters below \<open>0x80\<close>.
\<close>

definition toUpperCaseAscii :: "string \<Rightarrow> string" where
  "toUpperCaseAscii s = map upperChar s"

definition htmlTagOpen :: string where
  \<comment> \<open>the constant \<open>htmlOpen\<close> of \<open>conversionV1\<close> and \<open>getDdsFromSrc\<close>: \<open>HTML(\<close> and a single quote\<close>
  "htmlTagOpen = ''HTML('' @ [quote]"

section \<open>The Chunker: \<open>chunkData\<close>\<close>

text \<open>
  \<open>fixSingleQuotes\<close> works on the last two chunks. The counter \<open>count\<close> of the source is
  incremented with every \<open>push\<close> and so always equals \<open>chunks.length\<close>; the model reads the
  length instead. The guard \<open>count > 1\<close>, tested once before the \<open>while\<close> of the source, is
  repeated in the loop condition here (the loop does not change the number of chunks).
\<close>

function fixSingleQuotes :: "string list \<Rightarrow> string list" where
  "fixSingleQuotes chunks =
     (let count = length chunks in
      if count > 1 \<and> substr (chunks ! (count - 1)) 0 1 = [quote]
      then fixSingleQuotes
             ((chunks[count - 1 := substrFrom (chunks ! (count - 1)) 1])
                [count - 2 := chunks ! (count - 2) @ [quote]])
      else chunks)"
  by pat_completeness auto
termination
proof (relation "measure (\<lambda>chunks. length (chunks ! (length chunks - 1)))")
  fix chunks :: "string list" and count
  assume c: "count = length chunks"
    and g: "1 < count \<and> substr (chunks ! (count - 1)) 0 1 = [quote]"
  from g have ne: "chunks ! (count - 1) \<noteq> []"
    by (auto simp: substr_def)
  from c g ne
  show "((chunks[count - 1 := substrFrom (chunks ! (count - 1)) 1])
           [count - 2 := chunks ! (count - 2) @ [quote]], chunks)
        \<in> measure (\<lambda>chunks. length (chunks ! (length chunks - 1)))"
    by (cases "chunks ! (length chunks - 1)")
       (auto simp: substr_def substrFrom_def Let_def nth_list_update)
qed simp

declare fixSingleQuotes.simps [simp del]

text \<open>
  The inner loop of \<open>chunkData\<close> that walks back over trailing blanks:
  \<open>while (chunkSize > 0 && data.substr(chunkSize - 1, 1) === ' ') chunkSize--\<close>.
\<close>

fun trimChunkSize :: "string \<Rightarrow> nat \<Rightarrow> nat" where
  "trimChunkSize data 0 = 0"
| "trimChunkSize data (Suc k) =
     (if substr data (int k) 1 = '' '' then trimChunkSize data k else Suc k)"

text \<open>
  The outer loop \<open>while (data.length > bytes)\<close>. With \<open>bytes = 0\<close> and a non-empty \<open>data\<close>
  the source never leaves it, so the loop is a partial function: \<open>None\<close> is "does not return".
\<close>

partial_function (option) chunkLoop :: "string \<Rightarrow> nat \<Rightarrow> string list \<Rightarrow> string list option" where
  "chunkLoop data bytes chunks =
     (if length data > bytes then
        (let chunkSize0 = trimChunkSize data bytes;
             chunkSize = (if chunkSize0 = 0 then bytes else chunkSize0)
         in chunkLoop (substrFrom data (int chunkSize)) bytes
              (fixSingleQuotes (chunks @ [substr data 0 (int chunkSize)])))
      else Some (if length data > 0 then fixSingleQuotes (chunks @ [data]) else chunks))"

declare chunkLoop.simps [code]

definition chunkData :: "string \<Rightarrow> nat \<Rightarrow> string list option" where
  "chunkData data bytes = chunkLoop data bytes []"

section \<open>Errors and structured data\<close>

text \<open>
  The two exceptions the converters can raise: \<open>JSON.parse\<close> throws a \<open>SyntaxError\<close>;
  reading a property of \<open>undefined\<close> or \<open>null\<close>, or calling a method a value does not
  have, throws a \<open>TypeError\<close>. A result is \<open>Inl\<close> of the exception or \<open>Inr\<close> of the value.
\<close>

datatype error = SyntaxError | TypeError

text \<open>
  A value as \<open>JSON.parse\<close> builds it. An object keeps its properties in the order
  \<open>for ... in\<close> and \<open>JSON.stringify\<close> enumerate them.
  Numbers are the integer-valued ones (a value of display JSON is text almost everywhere);
  \<open>JSON.stringify\<close> prints those below \<open>10^21\<close> in magnitude in plain decimal, as here.
\<close>

datatype json =
    JNull
  | JBool bool
  | JNum int
  | JStr string
  | JArr "json list"
  | JObj "(string \<times> json) list"

definition getProp :: "(string \<times> json) list \<Rightarrow> string \<Rightarrow> json option" where
  \<comment> \<open>\<open>obj[key]\<close> on an object: \<open>None\<close> is \<open>undefined\<close>.\<close>
  "getProp kvs key = map_of kvs key"

subsection \<open>\<open>JSON.stringify\<close>\<close>

definition digitChar :: "nat \<Rightarrow> char" where
  "digitChar d = char_of (48 + d)"

function showNat :: "nat \<Rightarrow> string" where
  "showNat n = (if n < 10 then [digitChar n] else showNat (n div 10) @ [digitChar (n mod 10)])"
  by pat_completeness auto
termination
  by (relation "measure id") auto

declare showNat.simps [simp del]

definition showInt :: "int \<Rightarrow> string" where
  "showInt i = (if i < 0 then CHR ''-'' # showNat (nat (- i)) else showNat (nat i))"

definition hexChar :: "nat \<Rightarrow> char" where
  "hexChar d = (if d < 10 then char_of (48 + d) else char_of (87 + d))"

definition escapeChar :: "char \<Rightarrow> string" where
  \<comment> \<open>\<open>QuoteJSONString\<close>: the two-character escapes, \<open>\u00xx\<close> for the other control characters.\<close>
  "escapeChar c =
     (if c = CHR 0x22 then [CHR 0x5C, CHR 0x22]
      else if c = CHR 0x5C then [CHR 0x5C, CHR 0x5C]
      else if c = CHR 0x08 then [CHR 0x5C, CHR ''b'']
      else if c = CHR 0x0C then [CHR 0x5C, CHR ''f'']
      else if c = CHR 0x0A then [CHR 0x5C, CHR ''n'']
      else if c = CHR 0x0D then [CHR 0x5C, CHR ''r'']
      else if c = CHR 0x09 then [CHR 0x5C, CHR ''t'']
      else if (of_char c :: nat) < 32
        then [CHR 0x5C, CHR ''u'', CHR ''0'', CHR ''0'',
              hexChar ((of_char c :: nat) div 16), hexChar ((of_char c :: nat) mod 16)]
      else [c])"

definition quoteJSONString :: "string \<Rightarrow> string" where
  "quoteJSONString s = CHR 0x22 # concat (map escapeChar s) @ [CHR 0x22]"

fun joinWith :: "string \<Rightarrow> string list \<Rightarrow> string" where
  "joinWith sep [] = []"
| "joinWith sep [x] = x"
| "joinWith sep (x # y # ys) = x @ sep @ joinWith sep (y # ys)"

fun JSON_stringify :: "json \<Rightarrow> string" where
  "JSON_stringify JNull = ''null''"
| "JSON_stringify (JBool b) = (if b then ''true'' else ''false'')"
| "JSON_stringify (JNum i) = showInt i"
| "JSON_stringify (JStr s) = quoteJSONString s"
| "JSON_stringify (JArr xs) = ''['' @ joinWith '','' (map JSON_stringify xs) @ '']''"
| "JSON_stringify (JObj kvs) =
     ''{'' @ joinWith '','' (map (\<lambda>(k, v). quoteJSONString k @ '':'' @ JSON_stringify v) kvs) @ ''}''"

subsection \<open>\<open>JSON.parse\<close>\<close>

text \<open>
  The converters reach \<open>JSON.parse\<close> through a parameter \<open>parse\<close> of type
  \<^typ>\<open>string \<Rightarrow> json option\<close> (\<open>None\<close>: it throws a \<open>SyntaxError\<close>), so what is proved of them
  holds whatever the parser accepts. \<open>JSON_parse\<close> below is the instance used to run them on
  concrete documents: a recursive-descent reader of the JSON grammar (white space, the three
  literals, integers, strings with their escapes, arrays, objects). A repeated key keeps its
  first position and takes the last value. Number literals with a fraction or an exponent,
  \<open>\u\<close> escapes above \<open>00ff\<close> and the reordering of integer-like keys are outside it.
  The recursion is on a fuel that the length of the text bounds.
\<close>

definition isJsonWs :: "char \<Rightarrow> bool" where
  "isJsonWs c \<longleftrightarrow> c = CHR '' '' \<or> c = CHR 0x09 \<or> c = CHR 0x0A \<or> c = CHR 0x0D"

definition skipWs :: "string \<Rightarrow> string" where
  "skipWs s = dropWhile isJsonWs s"

definition isDigit :: "char \<Rightarrow> bool" where
  "isDigit c \<longleftrightarrow> (48::nat) \<le> of_char c \<and> (of_char c :: nat) \<le> 57"

definition hexValue :: "char \<Rightarrow> nat option" where
  "hexValue c =
     (let n = (of_char c :: nat) in
      if 48 \<le> n \<and> n \<le> 57 then Some (n - 48)
      else if 97 \<le> n \<and> n \<le> 102 then Some (n - 87)
      else if 65 \<le> n \<and> n \<le> 70 then Some (n - 55)
      else None)"

definition hex4 :: "string \<Rightarrow> nat option" where
  "hex4 s =
     (case map hexValue s of
        [Some a, Some b, Some c, Some d] \<Rightarrow> Some (((a * 16 + b) * 16 + c) * 16 + d)
      | _ \<Rightarrow> None)"

fun parseChars :: "nat \<Rightarrow> string \<Rightarrow> string \<Rightarrow> (string \<times> string) option" where
  "parseChars 0 acc s = None"
| "parseChars (Suc n) acc [] = None"
| "parseChars (Suc n) acc (c # cs) =
     (if c = CHR 0x22 then Some (acc, cs)
      else if c = CHR 0x5C then
        (case cs of
           [] \<Rightarrow> None
         | e # r \<Rightarrow>
             if e = CHR 0x22 \<or> e = CHR 0x5C \<or> e = CHR ''/'' then parseChars n (acc @ [e]) r
             else if e = CHR ''b'' then parseChars n (acc @ [CHR 0x08]) r
             else if e = CHR ''f'' then parseChars n (acc @ [CHR 0x0C]) r
             else if e = CHR ''n'' then parseChars n (acc @ [CHR 0x0A]) r
             else if e = CHR ''r'' then parseChars n (acc @ [CHR 0x0D]) r
             else if e = CHR ''t'' then parseChars n (acc @ [CHR 0x09]) r
             else if e = CHR ''u'' then
               (case hex4 (take 4 r) of
                  Some k \<Rightarrow> if k < 256 then parseChars n (acc @ [char_of k]) (drop 4 r) else None
                | None \<Rightarrow> None)
             else None)
      else if (of_char c :: nat) < 32 then None
      else parseChars n (acc @ [c]) cs)"

definition digitsValue :: "string \<Rightarrow> nat" where
  "digitsValue ds = foldl (\<lambda>a c. 10 * a + ((of_char c :: nat) - 48)) 0 ds"

definition parseNumber :: "string \<Rightarrow> (json \<times> string) option" where
  "parseNumber s =
     (let neg = (take 1 s = ''-'');
          s1 = (if neg then drop 1 s else s);
          ds = (if take 1 s1 = ''0'' then ''0'' else takeWhile isDigit s1);
          r = drop (length ds) s1
      in if ds = [] then None
         else if take 1 r = ''.'' \<or> take 1 r = ''e'' \<or> take 1 r = ''E'' then None
         else Some (JNum (if neg then - int (digitsValue ds) else int (digitsValue ds)), r))"

definition insertKey :: "(string \<times> json) list \<Rightarrow> string \<Rightarrow> json \<Rightarrow> (string \<times> json) list" where
  "insertKey kvs k v =
     (if k \<in> set (map fst kvs) then map (\<lambda>kv. if fst kv = k then (k, v) else kv) kvs
      else kvs @ [(k, v)])"

fun parseValue :: "nat \<Rightarrow> string \<Rightarrow> (json \<times> string) option"
  and parseElements :: "nat \<Rightarrow> json list \<Rightarrow> string \<Rightarrow> (json \<times> string) option"
  and parseMembers :: "nat \<Rightarrow> (string \<times> json) list \<Rightarrow> string \<Rightarrow> (json \<times> string) option"
where
  "parseValue 0 s = None"
| "parseValue (Suc n) s =
     (case s of
        [] \<Rightarrow> None
      | c # cs \<Rightarrow>
          if c = CHR ''{'' then
            (if take 1 (skipWs cs) = ''}'' then Some (JObj [], drop 1 (skipWs cs))
             else parseMembers n [] (skipWs cs))
          else if c = CHR ''['' then
            (if take 1 (skipWs cs) = '']'' then Some (JArr [], drop 1 (skipWs cs))
             else parseElements n [] (skipWs cs))
          else if c = CHR 0x22 then
            (case parseChars (Suc (length cs)) [] cs of
               None \<Rightarrow> None
             | Some (str, r) \<Rightarrow> Some (JStr str, r))
          else if take 4 s = ''true'' then Some (JBool True, drop 4 s)
          else if take 5 s = ''false'' then Some (JBool False, drop 5 s)
          else if take 4 s = ''null'' then Some (JNull, drop 4 s)
          else parseNumber s)"
| "parseElements 0 acc s = None"
| "parseElements (Suc n) acc s =
     (case parseValue n s of
        None \<Rightarrow> None
      | Some (v, r) \<Rightarrow>
          if take 1 (skipWs r) = '','' then parseElements n (acc @ [v]) (skipWs (drop 1 (skipWs r)))
          else if take 1 (skipWs r) = '']'' then Some (JArr (acc @ [v]), drop 1 (skipWs r))
          else None)"
| "parseMembers 0 acc s = None"
| "parseMembers (Suc n) acc s =
     (if take 1 s \<noteq> [CHR 0x22] then None
      else
        (case parseChars (length s) [] (drop 1 s) of
           None \<Rightarrow> None
         | Some (k, r1) \<Rightarrow>
             if take 1 (skipWs r1) \<noteq> '':'' then None
             else
               (case parseValue n (skipWs (drop 1 (skipWs r1))) of
                  None \<Rightarrow> None
                | Some (v, r2) \<Rightarrow>
                    if take 1 (skipWs r2) = '','' then
                      parseMembers n (insertKey acc k v) (skipWs (drop 1 (skipWs r2)))
                    else if take 1 (skipWs r2) = ''}'' then
                      Some (JObj (insertKey acc k v), drop 1 (skipWs r2))
                    else None)))"

definition JSON_parse :: "string \<Rightarrow> json option" where
  "JSON_parse s =
     (case parseValue (Suc (length s)) (skipWs s) of
        None \<Rightarrow> None
      | Some (v, r) \<Rightarrow> if skipWs r = [] then Some v else None)"

subsection \<open>The quote-doubling escape\<close>

definition escapeQuotes :: "string \<Rightarrow> string" where
  \<comment> \<open>\<open>.replace(/'/g, "''")\<close>\<close>
  "escapeQuotes s = concat (map (\<lambda>c. if c = quote then [quote, quote] else [c]) s)"

fun unescapeQuotes :: "string \<Rightarrow> string" where
  \<comment> \<open>\<open>.replace(/''/g, "'")\<close>: the matches are taken left to right and do not overlap.\<close>
  "unescapeQuotes (a # b # cs) =
     (if a = quote \<and> b = quote then quote # unescapeQuotes cs else a # unescapeQuotes (b # cs))"
| "unescapeQuotes cs = cs"

section \<open>The Renderer: \<open>htmlObjToDdsLines\<close>\<close>

definition kwdOpen :: string where
  "kwdOpen = ''     A                                      ''"

definition htmlOpenOf :: "string \<Rightarrow> string" where
  \<comment> \<open>the template literal \<open>htmlOpen\<close> of \<open>htmlObjToDdsLines\<close>\<close>
  "htmlOpenOf htmlLineNum =
     ''     A                                '' @ htmlLineNum @ ''  2HTML('' @ [quote]"

definition closeTag :: string where
  \<comment> \<open>the closing marker: a single quote and a closing parenthesis\<close>
  "closeTag = [quote, CHR '')'']"

text \<open>
  The inner \<open>for (pos = len, len = 79 - kwdOpen.length; pos < chunk.length; pos += len)\<close>.
  The state is the flag \<open>isHtmlClosed\<close> and the lines pushed so far.
\<close>

function contLoop :: "string \<Rightarrow> int \<Rightarrow> bool \<times> string list \<Rightarrow> bool \<times> string list" where
  "contLoop chunk pos st =
     (let len = 79 - int (length kwdOpen) in
      if pos < int (length chunk) then
        (let ddsLine = kwdOpen @ substr chunk pos len in
         if length ddsLine = 79
         then contLoop chunk (pos + len) (fst st, snd st @ [ddsLine @ ''-''])
         else contLoop chunk (pos + len) (True, snd st @ [ddsLine @ closeTag]))
      else st)"
  by pat_completeness auto
termination
  by (relation "measure (\<lambda>(chunk, pos, st). nat (int (length chunk) - pos))")
     (auto simp: kwdOpen_def)

declare contLoop.simps [simp del]

text \<open>
  The \<open>for (const chunk of htmlChunks)\<close> loop. The \<open>break\<close> of the source leaves the loop
  over the chunks, so the chunks after one that fits on its first line are not rendered.
\<close>

fun renderChunks :: "string \<Rightarrow> string list \<Rightarrow> string list \<Rightarrow> string list" where
  "renderChunks htmlOpen [] rtnLines = rtnLines"
| "renderChunks htmlOpen (chunk # rest) rtnLines =
     (let len = 79 - int (length htmlOpen);
          availLength = substr chunk 0 len
      in if int (length availLength) \<le> len - 2
         then rtnLines @ [htmlOpen @ substr chunk 0 len @ closeTag]
         else (let st = contLoop chunk len (False, rtnLines @ [htmlOpen @ substr chunk 0 len @ ''-''])
               in renderChunks htmlOpen rest
                    (if \<not> fst st then snd st @ [kwdOpen @ closeTag] else snd st)))"

text \<open>
  \<open>htmlObj\<close> is \<open>None\<close> for \<open>undefined\<close>: \<open>JSON.stringify(undefined)\<close> is \<open>undefined\<close> and the
  call of \<open>replace\<close> on it throws. The outer \<open>option\<close> is that of \<open>chunkData\<close>.
\<close>

definition htmlObjToDdsLines :: "json option \<Rightarrow> string \<Rightarrow> (error + string list) option" where
  "htmlObjToDdsLines htmlObj htmlLineNum =
     (case htmlObj of
        None \<Rightarrow> Some (Inl TypeError)
      | Some obj \<Rightarrow>
          (case chunkData (escapeQuotes (JSON_stringify obj)) 2500 of
             None \<Rightarrow> None
           | Some htmlChunks \<Rightarrow> Some (Inr (renderChunks (htmlOpenOf htmlLineNum) htmlChunks []))))"

section \<open>The Tag Scanner: \<open>getFormatsFromSrc\<close>\<close>

definition addToFormats :: "(string \<Rightarrow> json option) \<Rightarrow> json list \<Rightarrow> string \<Rightarrow> error + json list" where
  \<comment> \<open>\<open>formats.push(JSON.parse(str.replace(/''/g, "'")))\<close>\<close>
  "addToFormats parse formats str =
     (case parse (unescapeQuotes str) of
        None \<Rightarrow> Inl SyntaxError
      | Some v \<Rightarrow> Inr (formats @ [v]))"

record scan =
  isHtmlJsonTag :: bool
  htmlTag :: string
  formats :: "json list"

text \<open>
  The second half of the \<open>forEach\<close> callback: is this line the start of a payload tag? The
  \<open>JSON.parse\<close> of a tag that opens and closes on one line is outside every \<open>try\<close> of the
  callback; its exception leaves \<open>forEach\<close> and is turned into a rejection by the \<open>catch\<close> of
  \<open>getFormatsFromSrc\<close>.
\<close>

definition openTag :: "(string \<Rightarrow> json option) \<Rightarrow> scan \<Rightarrow> string \<Rightarrow> error + scan" where
  "openTag parse st line =
     (if substr line 44 7 = htmlTagOpen @ ''{'' then
        (if substr line 79 1 \<noteq> ''-'' then
           (let endPos = lastIndexOf line closeTag in
            case addToFormats parse (formats st) (htmlTag st @ substring line 50 endPos) of
              Inl e \<Rightarrow> Inl e
            | Inr fs \<Rightarrow> Inr (st\<lparr>isHtmlJsonTag := False, formats := fs\<rparr>))
         else Inr (st\<lparr>isHtmlJsonTag := True, htmlTag := htmlTag st @ substring line 50 79\<rparr>))
      else Inr (st\<lparr>isHtmlJsonTag := False\<rparr>))"

text \<open>
  The whole callback. While a tag is being read, a line that does not continue is tried:
  when the text read so far parses, the payload is stored and the same line goes on to the
  test of \<open>openTag\<close>; when it does not, the \<open>catch\<close> keeps the text and returns.
\<close>

definition scanLine :: "(string \<Rightarrow> json option) \<Rightarrow> scan \<Rightarrow> string \<Rightarrow> error + scan" where
  "scanLine parse st line =
     (if isHtmlJsonTag st then
        (let strPos = (if substr line 44 6 = htmlTagOpen then 50 else 44) in
         if substr line 79 1 \<noteq> ''-'' then
           (let endPos = lastIndexOf line closeTag in
            case addToFormats parse (formats st) (htmlTag st @ substring line strPos endPos) of
              Inr fs \<Rightarrow> openTag parse (st\<lparr>isHtmlJsonTag := False, htmlTag := [], formats := fs\<rparr>) line
            | Inl e \<Rightarrow> Inr (st\<lparr>htmlTag := htmlTag st @ substring line strPos endPos\<rparr>))
         else Inr (st\<lparr>htmlTag := htmlTag st @ substring line strPos 79\<rparr>))
      else openTag parse st line)"

fun scanLines :: "(string \<Rightarrow> json option) \<Rightarrow> scan \<Rightarrow> string list \<Rightarrow> error + scan" where
  "scanLines parse st [] = Inr st"
| "scanLines parse st (line # rest) =
     (case scanLine parse st line of
        Inl e \<Rightarrow> Inl e
      | Inr st' \<Rightarrow> scanLines parse st' rest)"

definition scanStart :: scan where
  "scanStart = \<lparr>isHtmlJsonTag = False, htmlTag = [], formats = []\<rparr>"

definition getFormatsFromSrc :: "(string \<Rightarrow> json option) \<Rightarrow> string list \<Rightarrow> error + json list" where
  "getFormatsFromSrc parse srcLines =
     (case scanLines parse scanStart srcLines of
        Inl e \<Rightarrow> Inl e
      | Inr st \<Rightarrow> Inr (formats st))"

section \<open>The Structural Merge Engine: \<open>conversionV1\<close>\<close>

definition isRcdFmtOpen :: "string \<Rightarrow> bool" where
  "isRcdFmtOpen line \<longleftrightarrow> substr line 5 12 = ''A          R''"

definition isHtmlJsonOpen :: "string \<Rightarrow> bool" where
  "isHtmlJsonOpen line \<longleftrightarrow> substr line 5 2 = ''A '' \<and> substr line 44 7 = htmlTagOpen @ ''{''"

definition recordFormatName :: "(string \<Rightarrow> string) \<Rightarrow> json \<Rightarrow> error + string" where
  \<comment> \<open>\<open>x.screen['record format name'].toUpperCase()\<close>\<close>
  "recordFormatName toUpperCase x =
     (case x of
        JObj kvs \<Rightarrow>
          (case getProp kvs ''screen'' of
             Some (JObj skvs) \<Rightarrow>
               (case getProp skvs ''record format name'' of
                  Some (JStr name) \<Rightarrow> Inr (toUpperCase name)
                | _ \<Rightarrow> Inl TypeError)
           | _ \<Rightarrow> Inl TypeError)
      | _ \<Rightarrow> Inl TypeError)"

text \<open>
  \<open>formats.filter(x => x.screen['record format name'].toUpperCase() === rcdFmt)\<close>; \<open>rcdFmt\<close>
  is \<open>None\<close> while it is \<open>undefined\<close> (no record-format header seen yet).
\<close>

fun filterFormats :: "(string \<Rightarrow> string) \<Rightarrow> json list \<Rightarrow> string option \<Rightarrow> error + json list" where
  "filterFormats toUpperCase [] rcdFmt = Inr []"
| "filterFormats toUpperCase (x # xs) rcdFmt =
     (case recordFormatName toUpperCase x of
        Inl e \<Rightarrow> Inl e
      | Inr name \<Rightarrow>
          (case filterFormats toUpperCase xs rcdFmt of
             Inl e \<Rightarrow> Inl e
           | Inr ys \<Rightarrow> Inr (if Some name = rcdFmt then x # ys else ys)))"

definition firstOf :: "'a list \<Rightarrow> 'a option" where
  \<comment> \<open>\<open>arr[0]\<close>: \<open>None\<close> is \<open>undefined\<close>\<close>
  "firstOf xs = (case xs of [] \<Rightarrow> None | x # _ \<Rightarrow> Some x)"

text \<open>
  The three statements that stand before both \<open>break\<close>s of the inner loop: filter the new
  formats by the current record-format name, take the line number of the tag-open line, and
  render the first match. The first argument is \<open>newJsonSrcObj.formats\<close>, the only part of
  the new model that \<open>conversionV1\<close> reads.
\<close>

definition renderRegion ::
  "(string \<Rightarrow> string) \<Rightarrow> json list \<Rightarrow> string option \<Rightarrow> string \<Rightarrow> (error + string list) option"
where
  "renderRegion toUpperCase newFormats rcdFmt origSrcLine =
     (case filterFormats toUpperCase newFormats rcdFmt of
        Inl e \<Rightarrow> Some (Inl e)
      | Inr formatObj \<Rightarrow> htmlObjToDdsLines (firstOf formatObj) (substr origSrcLine 38 3))"

text \<open>
  The inner \<open>for (; srcIdx < origSrcLines.length; srcIdx++)\<close>. It answers the rendered lines
  and the value of \<open>srcIdx\<close> at the \<open>break\<close>, or no lines and the length of the document when
  it runs to the end. \<open>origSrcLines[srcIdx - 1]\<close> is \<open>undefined\<close> for \<open>srcIdx = 0\<close>, and the
  call of \<open>substring\<close> on it throws.
\<close>

function regionLoop ::
  "(string \<Rightarrow> string) \<Rightarrow> json list \<Rightarrow> string list \<Rightarrow> string option \<Rightarrow> string \<Rightarrow> nat \<Rightarrow> (error + string list \<times> nat) option"
where
  "regionLoop toUpperCase newFormats origSrcLines rcdFmt origSrcLine srcIdx =
     (if srcIdx < length origSrcLines then
        (if substr (origSrcLines ! srcIdx) 5 2 = ''A '' \<and> substr (origSrcLines ! srcIdx) 79 1 \<noteq> ''-''
         then
           (if srcIdx = length origSrcLines - 1 then
              (case renderRegion toUpperCase newFormats rcdFmt origSrcLine of
                 None \<Rightarrow> None
               | Some (Inl e) \<Rightarrow> Some (Inl e)
               | Some (Inr new) \<Rightarrow> Some (Inr (new, srcIdx)))
            else if substr (origSrcLines ! (srcIdx + 1)) 44 6 \<noteq> htmlTagOpen then
              (if srcIdx = 0 then Some (Inl TypeError)
               else
                 (let tempText = substring (origSrcLines ! (srcIdx - 1)) 44 79
                                   @ substring (origSrcLines ! srcIdx) 44 80;
                      endPos = lastIndexOf tempText (''}'' @ closeTag)
                  in if endPos \<noteq> -1 then
                       (case renderRegion toUpperCase newFormats rcdFmt origSrcLine of
                          None \<Rightarrow> None
                        | Some (Inl e) \<Rightarrow> Some (Inl e)
                        | Some (Inr new) \<Rightarrow> Some (Inr (new, srcIdx)))
                     else regionLoop toUpperCase newFormats origSrcLines rcdFmt origSrcLine (srcIdx + 1)))
            else regionLoop toUpperCase newFormats origSrcLines rcdFmt origSrcLine (srcIdx + 1))
         else regionLoop toUpperCase newFormats origSrcLines rcdFmt origSrcLine (srcIdx + 1))
      else Some (Inr ([], srcIdx)))"
  by pat_completeness auto
termination
  by (relation "measure (\<lambda>(up, nf, ls, r, l, srcIdx). length ls - srcIdx)") auto

declare regionLoop.simps [simp del]

text \<open>
  The outer \<open>for (let srcIdx = 0; srcIdx < origSrcLines.length; srcIdx++)\<close>. After a
  \<open>break\<close> of the inner loop the outer loop goes on behind the line where the inner loop
  stopped; after an inner loop that ran to the end there is nothing left.
\<close>

function conversionLoop ::
  "(string \<Rightarrow> string) \<Rightarrow> json list \<Rightarrow> string list \<Rightarrow> string option \<Rightarrow> nat \<Rightarrow> string list \<Rightarrow> (error + string list) option"
where
  "conversionLoop toUpperCase newFormats origSrcLines rcdFmt srcIdx ddsLines =
     (if srcIdx < length origSrcLines then
        (let origSrcLine = origSrcLines ! srcIdx in
         if isRcdFmtOpen origSrcLine then
           conversionLoop toUpperCase newFormats origSrcLines
             (Some (toUpperCase (trimRight (substr origSrcLine 18 10))))
             (srcIdx + 1) (ddsLines @ [origSrcLine])
         else if isHtmlJsonOpen origSrcLine then
           (case regionLoop toUpperCase newFormats origSrcLines rcdFmt origSrcLine srcIdx of
              None \<Rightarrow> None
            | Some (Inl e) \<Rightarrow> Some (Inl e)
            | Some (Inr (new, endIdx)) \<Rightarrow>
                conversionLoop toUpperCase newFormats origSrcLines rcdFmt (endIdx + 1) (ddsLines @ new))
         else conversionLoop toUpperCase newFormats origSrcLines rcdFmt (srcIdx + 1) (ddsLines @ [origSrcLine]))
      else Some (Inr ddsLines))"
  by pat_completeness auto
termination
proof -
  have ge: "i \<le> j" if "regionLoop toUpperCase nf ls r l i = Some (Inr (new, j))" for toUpperCase nf ls r l i new j
    using that
  proof (induction "length ls - i" arbitrary: i rule: less_induct)
    case less
    have step: "i \<le> j"
      if "regionLoop toUpperCase nf ls r l (Suc i) = Some (Inr (new, j))" and "i < length ls"
      using less.hyps [of "Suc i"] that by force
    from less.prems show ?case
      by (subst (asm) regionLoop.simps)
         (auto split: if_splits option.splits sum.splits simp: Let_def dest: step)
  qed
  show ?thesis
    by (relation "measure (\<lambda>(up, nf, ls, r, srcIdx, dds). length ls - srcIdx)")
       (auto dest!: ge)
qed

declare conversionLoop.simps [simp del]

definition conversionV1 :: "(string \<Rightarrow> string) \<Rightarrow> json list \<Rightarrow> string list \<Rightarrow> (error + string list) option" where
  "conversionV1 toUpperCase newFormats origSrcLines = conversionLoop toUpperCase newFormats origSrcLines None 0 []"

section \<open>The Raw-Text Assembler: \<open>getDdsFromSrc\<close>\<close>

definition truthy :: "json \<Rightarrow> bool" where
  "truthy v = (case v of JNull \<Rightarrow> False | JBool b \<Rightarrow> b | JNum n \<Rightarrow> n \<noteq> 0 | JStr s \<Rightarrow> s \<noteq> [] | _ \<Rightarrow> True)"

text \<open>
  The body of the inner \<open>for ... in\<close> of \<open>getBoundFields\<close> for one property value:
  \<open>typeof itemValue === 'object' && itemValue.fieldName\<close>, then
  \<open>itemValue.fieldName.toUpperCase()\<close>. \<open>typeof null\<close> is \<open>'object'\<close>, and reading
  \<open>fieldName\<close> of \<open>null\<close> throws; so does \<open>toUpperCase\<close> on a truthy value that is no string.
\<close>

definition propertyField :: "(string \<Rightarrow> string) \<Rightarrow> json \<Rightarrow> error + string list" where
  "propertyField toUpperCase itemValue =
     (case itemValue of
        JNull \<Rightarrow> Inl TypeError
      | JObj kvs \<Rightarrow>
          (case getProp kvs ''fieldName'' of
             None \<Rightarrow> Inr []
           | Some f \<Rightarrow>
               if truthy f then (case f of JStr s \<Rightarrow> Inr [toUpperCase s] | _ \<Rightarrow> Inl TypeError)
               else Inr [])
      | _ \<Rightarrow> Inr [])"

fun collectFields :: "(string \<Rightarrow> string) \<Rightarrow> json list \<Rightarrow> error + string list" where
  \<comment> \<open>the pushes for a sequence of property values, stopping at the first exception\<close>
  "collectFields toUpperCase [] = Inr []"
| "collectFields toUpperCase (v # vs) =
     (case propertyField toUpperCase v of
        Inl e \<Rightarrow> Inl e
      | Inr fs \<Rightarrow> (case collectFields toUpperCase vs of Inl e \<Rightarrow> Inl e | Inr gs \<Rightarrow> Inr (fs @ gs)))"

text \<open>
  \<open>for (const itemProperty in item) if (item.hasOwnProperty(itemProperty))\<close>: the values
  \<open>item[itemProperty]\<close> the body of the loop is run with. They are the properties of an
  object, the elements of an array, the one-character strings of a string, and none for
  a number, a boolean or \<open>null\<close>. The test is a method call on the item: an object that has
  a property named \<open>hasOwnProperty\<close> of its own answers with that value, which is no
  function, and the call throws on the first property.
\<close>

definition ownValues :: "json \<Rightarrow> error + json list" where
  "ownValues item =
     (case item of
        JObj kvs \<Rightarrow>
          if ''hasOwnProperty'' \<in> set (map fst kvs) then Inl TypeError else Inr (map snd kvs)
      | JArr xs \<Rightarrow> Inr xs
      | JStr s \<Rightarrow> Inr (map (\<lambda>c. JStr [c]) s)
      | _ \<Rightarrow> Inr [])"

fun itemsFields :: "(string \<Rightarrow> string) \<Rightarrow> json list \<Rightarrow> error + string list" where
  \<comment> \<open>the outer \<open>for (const item of rcdFmt.items)\<close>\<close>
  "itemsFields toUpperCase [] = Inr []"
| "itemsFields toUpperCase (item # items) =
     (case ownValues item of
        Inl e \<Rightarrow> Inl e
      | Inr vs \<Rightarrow>
          (case collectFields toUpperCase vs of
             Inl e \<Rightarrow> Inl e
           | Inr fs \<Rightarrow>
               (case itemsFields toUpperCase items of Inl e \<Rightarrow> Inl e | Inr gs \<Rightarrow> Inr (fs @ gs))))"

definition iterate :: "json option \<Rightarrow> error + json list" where
  \<comment> \<open>\<open>for (const item of v)\<close>: arrays and strings can be iterated, anything else throws\<close>
  "iterate v =
     (case v of
        Some (JArr xs) \<Rightarrow> Inr xs
      | Some (JStr s) \<Rightarrow> Inr (map (\<lambda>c. JStr [c]) s)
      | _ \<Rightarrow> Inl TypeError)"

definition getBoundFields :: "(string \<Rightarrow> string) \<Rightarrow> json option \<Rightarrow> error + string list" where
  \<comment> \<open>the argument is \<open>rcdFmtObj[0]\<close>, \<open>None\<close> when it is \<open>undefined\<close>\<close>
  "getBoundFields toUpperCase rcdFmt =
     (case rcdFmt of
        Some (JObj kvs) \<Rightarrow>
          (case iterate (getProp kvs ''items'') of
             Inl e \<Rightarrow> Inl e
           | Inr items \<Rightarrow> itemsFields toUpperCase items)
      | _ \<Rightarrow> Inl TypeError)"

definition cleanLine :: "string \<Rightarrow> string" where
  \<comment> \<open>\<open>line.replace(/[\x00-\x09\x0B-\x1F\x7F-\x9F]/g, ' ').trimRight()\<close>\<close>
  "cleanLine line =
     trimRight (map (\<lambda>c. let n = (of_char c :: nat) in
                          if n \<le> 9 \<or> (11 \<le> n \<and> n \<le> 31) \<or> (127 \<le> n \<and> n \<le> 159) then CHR '' '' else c)
                    line)"

text \<open>\<open>while (srcLines[srcIdx].substr(79, 1) === '-') srcIdx++\<close>: reading past the last line
  throws.\<close>

function skipControl :: "string list \<Rightarrow> nat \<Rightarrow> error + nat" where
  "skipControl srcLines srcIdx =
     (if srcIdx < length srcLines then
        (if substr (srcLines ! srcIdx) 79 1 = ''-'' then skipControl srcLines (srcIdx + 1)
         else Inr srcIdx)
      else Inl TypeError)"
  by pat_completeness auto
termination
  by (relation "measure (\<lambda>(ls, srcIdx). length ls - srcIdx)") auto

declare skipControl.simps [simp del]

text \<open>
  The inner \<open>for\<close> of "Skip any Screen Formats". It answers the bound fields (changed at a
  \<open>break\<close> only) and the value of \<open>srcIdx\<close> on leaving the loop. Here the line after the
  closing line is read without a test for the end of the document.
\<close>

function screenLoop ::
  "(string \<Rightarrow> string) \<Rightarrow> string list \<Rightarrow> json list option \<Rightarrow> string list option \<Rightarrow> nat \<Rightarrow> error + string list option \<times> nat"
where
  "screenLoop toUpperCase srcLines rcdFmtObj boundFields srcIdx =
     (if srcIdx < length srcLines then
        (if substr (srcLines ! srcIdx) 5 2 = ''A '' \<and> substr (srcLines ! srcIdx) 79 1 \<noteq> ''-'' then
           (if srcIdx + 1 < length srcLines then
              (if substr (srcLines ! (srcIdx + 1)) 44 6 \<noteq> htmlTagOpen then
                 (if srcIdx = 0 then Inl TypeError
                  else
                    (let tempText = substring (srcLines ! (srcIdx - 1)) 44 79
                                      @ substring (srcLines ! srcIdx) 44 80;
                         endPos = lastIndexOf tempText (''}'' @ closeTag)
                     in if endPos \<noteq> -1 then
                          (case rcdFmtObj of
                             None \<Rightarrow> Inl TypeError
                           | Some objs \<Rightarrow>
                               (case getBoundFields toUpperCase (firstOf objs) of
                                  Inl e \<Rightarrow> Inl e
                                | Inr bound \<Rightarrow> Inr (Some bound, srcIdx)))
                        else screenLoop toUpperCase srcLines rcdFmtObj boundFields (srcIdx + 1)))
               else screenLoop toUpperCase srcLines rcdFmtObj boundFields (srcIdx + 1))
            else Inl TypeError)
         else screenLoop toUpperCase srcLines rcdFmtObj boundFields (srcIdx + 1))
      else Inr (boundFields, srcIdx))"
  by pat_completeness auto
termination
  by (relation "measure (\<lambda>(up, ls, objs, bf, srcIdx). length ls - srcIdx)") auto

declare screenLoop.simps [simp del]

text \<open>
  \<open>formats.filter(x => x.screen['record format name'].toUpperCase() === rcdFmt)\<close> of
  \<open>getDdsFromSrc\<close>: the name read from the header is only right-trimmed here.
\<close>

record dds =
  isSFL :: bool
  rcdFmtObj :: "json list option"
  boundFields :: "string list option"
  returnDds :: "string list"

definition atHeader :: "(string \<Rightarrow> string) \<Rightarrow> json list \<Rightarrow> dds \<Rightarrow> string \<Rightarrow> error + dds" where
  \<comment> \<open>"Grab the Record Format details"\<close>
  "atHeader toUpperCase fmts st line =
     (if substr line 5 12 = ''A          R'' then
        (case filterFormats toUpperCase fmts (Some (trimRight (substr line 18 10))) of
           Inl e \<Rightarrow> Inl e
         | Inr objs \<Rightarrow>
             Inr (st\<lparr>isSFL := (trim (substr line 44 36) = ''SFL''),
                      rcdFmtObj := Some objs, boundFields := None\<rparr>))
      else Inr st)"

definition keepLine :: "dds \<Rightarrow> string \<Rightarrow> dds" where
  \<comment> \<open>the \<open>else\<close> branch: echo the line unless it is blank, generated, or a hidden bound field\<close>
  "keepLine st line =
     (if line \<noteq> [] \<and> substr line 5 4 \<noteq> ''A*%%'' then
        (if boundFields st \<noteq> None \<and> substr line 5 2 = ''A '' \<and> substr line 37 1 = ''H''
            \<and> trimRight (substr line 18 10) \<in> set (case boundFields st of None \<Rightarrow> [] | Some fs \<Rightarrow> fs)
         then st
         else st\<lparr>returnDds := returnDds st @ [cleanLine line]\<rparr>)
      else st)"

text \<open>The \<open>for (let srcIdx = 0; srcIdx < srcLines.length; srcIdx++)\<close> of \<open>getDdsFromSrc\<close>.\<close>

function ddsLoop :: "(string \<Rightarrow> string) \<Rightarrow> json list \<Rightarrow> string list \<Rightarrow> dds \<Rightarrow> nat \<Rightarrow> error + string list" where
  "ddsLoop toUpperCase fmts srcLines st srcIdx =
     (if srcIdx < length srcLines then
        (let line = srcLines ! srcIdx in
         case atHeader toUpperCase fmts st line of
           Inl e \<Rightarrow> Inl e
         | Inr st1 \<Rightarrow>
             if substr line 5 2 = ''A '' \<and> substr line 44 10 = htmlTagOpen @ ''QPUI'' then
               (case skipControl srcLines srcIdx of
                  Inl e \<Rightarrow> Inl e
                | Inr endIdx \<Rightarrow> ddsLoop toUpperCase fmts srcLines st1 (endIdx + 1))
             else if \<not> isSFL st1 \<and> substr line 5 2 = ''A '' \<and> substr line 44 7 = htmlTagOpen @ ''{'' then
               (case screenLoop toUpperCase srcLines (rcdFmtObj st1) (boundFields st1) srcIdx of
                  Inl e \<Rightarrow> Inl e
                | Inr (bound, endIdx) \<Rightarrow>
                    ddsLoop toUpperCase fmts srcLines (st1\<lparr>boundFields := bound\<rparr>) (endIdx + 1))
             else ddsLoop toUpperCase fmts srcLines (keepLine st1 line) (srcIdx + 1))
      else Inr (returnDds st))"
  by pat_completeness auto
termination
proof -
  have ge1: "i \<le> j" if "skipControl ls i = Inr j" for ls i j
    using that
  proof (induction "length ls - i" arbitrary: i rule: less_induct)
    case less
    have step: "i \<le> j" if "skipControl ls (Suc i) = Inr j" and "i < length ls"
      using less.hyps [of "Suc i"] that by force
    from less.prems show ?case
      by (subst (asm) skipControl.simps) (auto split: if_splits dest: step)
  qed
  have ge2: "i \<le> j" if "screenLoop toUpperCase ls objs bf i = Inr (bf', j)" for toUpperCase ls objs bf i bf' j
    using that
  proof (induction "length ls - i" arbitrary: i rule: less_induct)
    case less
    have step: "i \<le> j" if "screenLoop toUpperCase ls objs bf (Suc i) = Inr (bf', j)" and "i < length ls"
      using less.hyps [of "Suc i"] that by force
    from less.prems show ?case
      by (subst (asm) screenLoop.simps)
         (auto split: if_splits option.splits sum.splits simp: Let_def dest: step)
  qed
  show ?thesis
    by (relation "measure (\<lambda>(up, fmts, ls, st, srcIdx). length ls - srcIdx)")
       (auto dest!: ge1 ge2)
qed

declare ddsLoop.simps [simp del]

definition ddsStart :: dds where
  "ddsStart = \<lparr>isSFL = False, rcdFmtObj = None, boundFields = None, returnDds = []\<rparr>"

definition getDdsFromSrc ::
  "(string \<Rightarrow> json option) \<Rightarrow> (string \<Rightarrow> string) \<Rightarrow> string list \<Rightarrow> error + string list" where
  "getDdsFromSrc parse toUpperCase srcLines =
     (case getFormatsFromSrc parse srcLines of
        Inl e \<Rightarrow> Inl e
      | Inr fmts \<Rightarrow> ddsLoop toUpperCase fmts srcLines ddsStart 0)"

section \<open>Reading the original document: the sequence and date prefix\<close>

definition CRLF :: string where
  "CRLF = [CHR 0x0D, CHR 0x0A]"

fun splitAt :: "string \<Rightarrow> string \<Rightarrow> string list" where
  \<comment> \<open>\<open>source.split(CRLF)\<close>, with the current piece as an accumulator; never an empty list\<close>
  "splitAt cur (a # b # rest) =
     (if a = CHR 0x0D \<and> b = CHR 0x0A then cur # splitAt [] rest else splitAt (cur @ [a]) (b # rest))"
| "splitAt cur rest = [cur @ rest]"

definition splitCRLF :: "string \<Rightarrow> string list" where
  "splitCRLF source = splitAt [] source"

definition isHexDigit :: "char \<Rightarrow> bool" where
  "isHexDigit c \<longleftrightarrow> hexValue c \<noteq> None"

definition parseIntIsNaN :: "string \<Rightarrow> bool" where
  \<comment> \<open>\<open>isNaN(Number.parseInt(s))\<close>: after leading white space and an optional sign there is no
      digit (no hexadecimal digit behind a \<open>0x\<close> prefix)\<close>
  "parseIntIsNaN s =
     (let s1 = dropWhile isWhiteSpace s;
          s2 = (if take 1 s1 = ''+'' \<or> take 1 s1 = ''-'' then drop 1 s1 else s1)
      in if take 2 s2 = ''0x'' \<or> take 2 s2 = ''0X''
         then (case drop 2 s2 of [] \<Rightarrow> True | c # _ \<Rightarrow> \<not> isHexDigit c)
         else (case s2 of [] \<Rightarrow> True | c # _ \<Rightarrow> \<not> isDigit c))"

definition stripSourceDate :: "string \<Rightarrow> string" where
  \<comment> \<open>\<open>srcLine => isNaN(Number.parseInt(srcLine.substr(0, 12))) ? srcLine : srcLine.substr(12)\<close>\<close>
  "stripSourceDate srcLine =
     (if parseIntIsNaN (substr srcLine 0 12) then srcLine else substrFrom srcLine 12)"

definition originalDdsLines :: "string \<Rightarrow> string list" where
  \<comment> \<open>\<open>originalDds.split(CRLF).map(...)\<close> of \<open>jsonToDds\<close>, and the same of \<open>ddsToJson\<close> for a
      path-based file\<close>
  "originalDdsLines originalDds = map stripSourceDate (splitCRLF originalDds)"

definition verifyConvertLines :: "string \<Rightarrow> string list" where
  \<comment> \<open>the lines \<open>verifyConvert\<close> hands on: the file as it is when the first line has no
      prefix, else the per-line map\<close>
  "verifyConvertLines originalDds =
     (case splitCRLF originalDds of
        [] \<Rightarrow> []
      | first # rest \<Rightarrow>
          if parseIntIsNaN (substr first 0 12) then first # rest
          else map stripSourceDate (first # rest))"

section \<open>Auxiliary predicates\<close>

text \<open>
  While a tag is being read, \<open>regionPiece\<close> is what a line adds to the text read so far
  (both branches of the callback append the same piece), and \<open>regionAttempts\<close> lists the
  texts that are handed to the parser as long as none of them parses: at every line that
  does not continue, the text read so far with the piece of that line.
\<close>

definition regionPiece :: "string \<Rightarrow> string" where
  "regionPiece line =
     (let strPos = (if substr line 44 6 = htmlTagOpen then 50 else 44) in
      if substr line 79 1 \<noteq> ''-'' then substring line strPos (lastIndexOf line closeTag)
      else substring line strPos 79)"

fun regionAttempts :: "string \<Rightarrow> string list \<Rightarrow> string list" where
  "regionAttempts tag [] = []"
| "regionAttempts tag (l # ls) =
     (if substr l 79 1 \<noteq> ''-'' then [tag @ regionPiece l] else [])
     @ regionAttempts (tag @ regionPiece l) ls"

text \<open>
  The test that ends the inner loop of \<open>conversionV1\<close> at line \<open>j\<close>, by a \<open>break\<close> or, for
  \<open>j = 0\<close>, by the exception of \<open>origSrcLines[-1].substring\<close>: the line has \<open>A\<close> and a blank
  in columns 6 and 7, does not continue, and is the last line, or is followed by a line
  that has no \<open>HTML('\<close> in column 45 while \<open>}')\<close> occurs in the keyword areas of the
  line before it and of the line itself, joined.
\<close>

definition regionStops :: "string list \<Rightarrow> nat \<Rightarrow> bool" where
  "regionStops ls j \<longleftrightarrow>
     j < length ls \<and> substr (ls ! j) 5 2 = ''A '' \<and> substr (ls ! j) 79 1 \<noteq> ''-''
     \<and> (j = length ls - 1
        \<or> (substr (ls ! (j + 1)) 44 6 \<noteq> htmlTagOpen
           \<and> (j = 0 \<or> lastIndexOf (substring (ls ! (j - 1)) 44 79 @ substring (ls ! j) 44 80)
                          (''}'' @ closeTag) \<noteq> -1)))"

text \<open>
  The first line at or behind line \<open>i\<close> where the region stops, if there is one.
\<close>

definition regionEnd :: "string list \<Rightarrow> nat \<Rightarrow> nat option" where
  "regionEnd ls i = find (regionStops ls) [i ..< length ls]"

text \<open>
  A line the outer loop of \<open>conversionV1\<close> pushes as it is: a record-format header, or a
  line that opens no payload tag. \<open>currentName\<close> is the value of \<open>rcdFmt\<close> behind a stretch
  of such lines: the name of the last header among them.
\<close>

definition copiedLine :: "string \<Rightarrow> bool" where
  "copiedLine l \<longleftrightarrow> isRcdFmtOpen l \<or> \<not> isHtmlJsonOpen l"

fun currentName :: "(string \<Rightarrow> string) \<Rightarrow> string option \<Rightarrow> string list \<Rightarrow> string option" where
  "currentName toUpperCase r [] = r"
| "currentName toUpperCase r (l # ls) =
     currentName toUpperCase
       (if isRcdFmtOpen l then Some (toUpperCase (trimRight (substr l 18 10))) else r) ls"


text \<open>The bound that survives the quote repair: a chunk of at most \<open>bytes\<close> characters may
  receive the leading quotes of its successor, itself at most \<open>bytes\<close> long.\<close>

definition chunksBounded :: "nat \<Rightarrow> string list \<Rightarrow> bool" where
  "chunksBounded bytes cs \<longleftrightarrow>
     list_all (\<lambda>c. length c \<le> 2 * bytes) cs \<and> (cs = [] \<or> length (last cs) \<le> bytes)"

section \<open>The specification's wording\<close>

text \<open>
  The prefix rule as the specification words it: presence is decided once, on the first
  line, and the twelve characters are then taken off every line.
\<close>

definition stripDocumentWide :: "string \<Rightarrow> string list" where
  "stripDocumentWide originalDds =
     (case splitCRLF originalDds of
        [] \<Rightarrow> []
      | first # rest \<Rightarrow>
          if parseIntIsNaN (substr first 0 12) then first # rest
          else map (\<lambda>l. substrFrom l 12) (first # rest))"

text \<open>
  The merge as the specification words it: a region runs from its tag-open line to the first
  line that does not continue and is followed by a line that opens no payload tag (or by
  nothing); header lines and all other lines are copied.
\<close>

fun specRegionLength :: "string list \<Rightarrow> nat" where
  "specRegionLength [] = 0"
| "specRegionLength [l] = 1"
| "specRegionLength (l # m # rest) =
     (if substr l 79 1 \<noteq> ''-'' \<and> \<not> isHtmlJsonOpen m then 1 else Suc (specRegionLength (m # rest)))"

function mergeAsSpecified :: "(string \<Rightarrow> string) \<Rightarrow> json list \<Rightarrow> string option \<Rightarrow> string list \<Rightarrow> (error + string list) option" where
  "mergeAsSpecified toUpperCase nf r [] = Some (Inr [])"
| "mergeAsSpecified toUpperCase nf r (l # rest) =
     (if isRcdFmtOpen l then
        (case mergeAsSpecified toUpperCase nf (Some (toUpperCase (trimRight (substr l 18 10)))) rest of
           Some (Inr out) \<Rightarrow> Some (Inr (l # out))
         | other \<Rightarrow> other)
      else if isHtmlJsonOpen l then
        (case renderRegion toUpperCase nf r l of
           Some (Inr new) \<Rightarrow>
             (case mergeAsSpecified toUpperCase nf r (drop (specRegionLength (l # rest)) (l # rest)) of
                Some (Inr out) \<Rightarrow> Some (Inr (new @ out))
              | other \<Rightarrow> other)
         | other \<Rightarrow> other)
      else
        (case mergeAsSpecified toUpperCase nf r rest of
           Some (Inr out) \<Rightarrow> Some (Inr (l # out))
         | other \<Rightarrow> other))"
  by pat_completeness auto
termination
proof (relation "measure (\<lambda>(up, nf, r, ls). length ls)", goal_cases)
  case (3 up nf r l rest x2 b)
  have "0 < specRegionLength (l # rest)"
    by (cases rest) simp_all
  then show ?case by simp
qed simp_all

text \<open>
  The merge as the amended claim words it, as the list of lines written from line \<open>i\<close> on:
  a header or a line that opens no payload tag is copied (a header sets the current name);
  at a payload-tag-open line the lines up to the first line where the region stops are
  replaced by the rendering, and the merge goes on behind that line; when the region stops
  nowhere, nothing more is written. A region that stops on line 0 of a longer document
  fails: the line before it is read.
\<close>

definition prepend :: "string list \<Rightarrow> (error + string list) option \<Rightarrow> (error + string list) option" where
  "prepend new res = (case res of Some (Inr out) \<Rightarrow> Some (Inr (new @ out)) | other \<Rightarrow> other)"

function mergeAmended ::
  "(string \<Rightarrow> string) \<Rightarrow> json list \<Rightarrow> string list \<Rightarrow> string option \<Rightarrow> nat \<Rightarrow> (error + string list) option"
where
  "mergeAmended toUpperCase nf ls r i =
     (if length ls \<le> i then Some (Inr [])
      else if isRcdFmtOpen (ls ! i) then
        prepend [ls ! i]
          (mergeAmended toUpperCase nf ls (Some (toUpperCase (trimRight (substr (ls ! i) 18 10)))) (Suc i))
      else if \<not> isHtmlJsonOpen (ls ! i) then
        prepend [ls ! i] (mergeAmended toUpperCase nf ls r (Suc i))
      else
        (case regionEnd ls i of
           None \<Rightarrow> Some (Inr [])
         | Some j \<Rightarrow>
             if j = 0 \<and> j \<noteq> length ls - 1 then Some (Inl TypeError)
             else
               (case renderRegion toUpperCase nf r (ls ! i) of
                  Some (Inr new) \<Rightarrow> prepend new (mergeAmended toUpperCase nf ls r (Suc j))
                | other \<Rightarrow> other)))"
  by pat_completeness auto
termination
proof (relation "measure (\<lambda>(up, nf, ls, r, i). length ls - i)", goal_cases)
  case (4 up nf ls r i j new)
  from 4(4) have "i \<le> j"
    by (auto simp: regionEnd_def find_Some_iff)
  with 4(1) show ?case by simp
qed simp_all

declare mergeAmended.simps [simp del]

text \<open>
  The bound-field set as the specification words it: every \<open>fieldName\<close> leaf of the payload
  tree, at any depth, upper-cased.
\<close>

fun allFieldNames :: "(string \<Rightarrow> string) \<Rightarrow> json \<Rightarrow> string list" where
  "allFieldNames toUpperCase (JObj kvs) =
     concat (map (\<lambda>(k, v). case v of
                     JStr s \<Rightarrow> if k = ''fieldName'' then [toUpperCase s] else []
                   | _ \<Rightarrow> allFieldNames toUpperCase v) kvs)"
| "allFieldNames toUpperCase (JArr xs) = concat (map (allFieldNames toUpperCase) xs)"
| "allFieldNames toUpperCase v = []"

text \<open>
  The echo as the amended claim words it. The context of a line is what the last header
  before it set: whether the record format is a subfile, the parsed payloads filtered for
  its name, and the bound fields, forgotten at every header and known again behind the
  payload region. A line is echoed, cleaned, unless it is empty, a generated annotation, or
  a hidden field definition whose right-trimmed name is among the bound fields that are
  known. A control tag is skipped up to its first line that does not continue, a payload
  region (outside a subfile) up to the first line where it stops; there the bound fields
  are taken from the first payload of the record format. Reading past the last line, or
  before the first, fails.
\<close>

definition returned :: "string list \<Rightarrow> error + string list \<Rightarrow> error + string list" where
  \<comment> \<open>the lines echoed so far, in front of what the rest of the document adds\<close>
  "returned acc res = (case res of Inl e \<Rightarrow> Inl e | Inr out \<Rightarrow> Inr (acc @ out))"

definition isControlOpen :: "string \<Rightarrow> bool" where
  "isControlOpen line \<longleftrightarrow> substr line 5 2 = ''A '' \<and> substr line 44 10 = htmlTagOpen @ ''QPUI''"

definition plainLine :: "string \<Rightarrow> bool" where
  \<comment> \<open>a line that opens neither a control tag nor a payload tag\<close>
  "plainLine l \<longleftrightarrow> \<not> isControlOpen l \<and> \<not> isHtmlJsonOpen l"

definition echoed :: "string list option \<Rightarrow> string \<Rightarrow> bool" where
  "echoed bound line \<longleftrightarrow>
     line \<noteq> [] \<and> substr line 5 4 \<noteq> ''A*%%''
     \<and> (case bound of
          None \<Rightarrow> True
        | Some fs \<Rightarrow> \<not> (substr line 5 2 = ''A '' \<and> substr line 37 1 = ''H''
                         \<and> trimRight (substr line 18 10) \<in> set fs))"

definition headerContext ::
  "(string \<Rightarrow> string) \<Rightarrow> json list \<Rightarrow> bool \<times> json list option \<times> string list option \<Rightarrow> string
     \<Rightarrow> error + bool \<times> json list option \<times> string list option"
where
  "headerContext toUpperCase fmts c line =
     (if isRcdFmtOpen line then
        (case filterFormats toUpperCase fmts (Some (trimRight (substr line 18 10))) of
           Inl e \<Rightarrow> Inl e
         | Inr objs \<Rightarrow> Inr (trim (substr line 44 36) = ''SFL'', Some objs, None))
      else Inr c)"

fun contextOf ::
  "(string \<Rightarrow> string) \<Rightarrow> json list \<Rightarrow> bool \<times> json list option \<times> string list option \<Rightarrow> string list
     \<Rightarrow> error + bool \<times> json list option \<times> string list option"
where
  "contextOf toUpperCase fmts c [] = Inr c"
| "contextOf toUpperCase fmts c (l # ls) =
     (case headerContext toUpperCase fmts c l of
        Inl e \<Rightarrow> Inl e
      | Inr c' \<Rightarrow> contextOf toUpperCase fmts c' ls)"

function echoAmended ::
  "(string \<Rightarrow> string) \<Rightarrow> json list \<Rightarrow> string list \<Rightarrow> bool \<times> json list option \<times> string list option
     \<Rightarrow> nat \<Rightarrow> error + string list"
where
  "echoAmended toUpperCase fmts ls c i =
     (if length ls \<le> i then Inr []
      else
        (case headerContext toUpperCase fmts c (ls ! i) of
           Inl e \<Rightarrow> Inl e
         | Inr (sfl, objs, bound) \<Rightarrow>
             if isControlOpen (ls ! i) then
               (case find (\<lambda>k. substr (ls ! k) 79 1 \<noteq> ''-'') [i ..< length ls] of
                  None \<Rightarrow> Inl TypeError
                | Some k \<Rightarrow> echoAmended toUpperCase fmts ls (sfl, objs, bound) (Suc k))
             else if \<not> sfl \<and> isHtmlJsonOpen (ls ! i) then
               (case regionEnd ls i of
                  None \<Rightarrow> Inr []
                | Some j \<Rightarrow>
                    if j = 0 \<or> j = length ls - 1 then Inl TypeError
                    else
                      (case objs of
                         None \<Rightarrow> Inl TypeError
                       | Some os \<Rightarrow>
                           (case getBoundFields toUpperCase (firstOf os) of
                              Inl e \<Rightarrow> Inl e
                            | Inr b \<Rightarrow> echoAmended toUpperCase fmts ls (sfl, objs, Some b) (Suc j))))
             else
               (case echoAmended toUpperCase fmts ls (sfl, objs, bound) (Suc i) of
                  Inl e \<Rightarrow> Inl e
                | Inr out \<Rightarrow>
                    Inr ((if echoed bound (ls ! i) then [cleanLine (ls ! i)] else []) @ out))))"
  by pat_completeness auto
termination
proof (relation "measure (\<lambda>(up, fmts, ls, c, i). length ls - i)", goal_cases)
  case (2 up fmts ls c i x2 sfl y objs bound k)
  then have "i \<le> k"
    by (auto simp: find_Some_iff)
  with 2 show ?case by simp
next
  case (3 up fmts ls c i x2 sfl y objs bound j os b)
  then have "i \<le> j"
    by (auto simp: regionEnd_def find_Some_iff)
  with 3 show ?case by simp
qed simp_all

declare echoAmended.simps [simp del]

section \<open>Documents in the layout of the Renderer\<close>

text \<open>
  A document written by the converters is a sequence of lines copied from the original and
  of payload regions, each the lines the Renderer makes of a payload and a display line
  number. \<open>linesOf\<close> is the document, \<open>payloadsOf\<close> its payloads in order.
\<close>

datatype segment = Copied string | Rendered json string

definition rendering :: "json \<Rightarrow> string \<Rightarrow> string list" where
  "rendering v num = (case htmlObjToDdsLines (Some v) num of Some (Inr ls) \<Rightarrow> ls | _ \<Rightarrow> [])"

fun linesOf :: "segment list \<Rightarrow> string list" where
  "linesOf [] = []"
| "linesOf (Copied l # segs) = l # linesOf segs"
| "linesOf (Rendered v num # segs) = rendering v num @ linesOf segs"

fun payloadsOf :: "segment list \<Rightarrow> json list" where
  "payloadsOf [] = []"
| "payloadsOf (Copied l # segs) = payloadsOf segs"
| "payloadsOf (Rendered v num # segs) = v # payloadsOf segs"

text \<open>
  The conditions under which such a document is read back and merged unchanged. A copied
  line opens no payload tag for the Tag Scanner. A payload is rendered as one chunk (its
  escaped text has at most 2500 characters) and not on a first line of 79 characters (its
  escaped text is not 28 characters long); its display line number has three characters;
  behind its first line no line of the region shows \<open>HTML('\<close> in column 45; the last
  header before the region names the record format of the payload; and the region is
  followed by a copied line without \<open>HTML('\<close> in column 45, or by nothing.
\<close>

definition oneChunk :: "json \<Rightarrow> bool" where
  "oneChunk v \<longleftrightarrow>
     length (escapeQuotes (JSON_stringify v)) \<le> 2500
     \<and> length (escapeQuotes (JSON_stringify v)) \<noteq> 28"

definition continuationClean :: "string list \<Rightarrow> bool" where
  "continuationClean ls \<longleftrightarrow> list_all (\<lambda>l. substr l 44 6 \<noteq> htmlTagOpen) (tl ls)"

definition followedByPlain :: "segment list \<Rightarrow> bool" where
  "followedByPlain segs \<longleftrightarrow>
     (case segs of
        [] \<Rightarrow> True
      | Copied l # _ \<Rightarrow> substr l 44 6 \<noteq> htmlTagOpen
      | Rendered v num # _ \<Rightarrow> False)"

fun laidOut :: "(string \<Rightarrow> string) \<Rightarrow> string option \<Rightarrow> segment list \<Rightarrow> bool" where
  "laidOut toUpperCase r [] \<longleftrightarrow> True"
| "laidOut toUpperCase r (Copied l # segs) \<longleftrightarrow>
     substr l 44 7 \<noteq> htmlTagOpen @ ''{''
     \<and> laidOut toUpperCase
         (if isRcdFmtOpen l then Some (toUpperCase (trimRight (substr l 18 10))) else r) segs"
| "laidOut toUpperCase r (Rendered v num # segs) \<longleftrightarrow>
     length num = 3
     \<and> (case recordFormatName toUpperCase v of Inl e \<Rightarrow> False | Inr n \<Rightarrow> r = Some n)
     \<and> oneChunk v \<and> continuationClean (rendering v num)
     \<and> followedByPlain segs
     \<and> laidOut toUpperCase r segs"

text \<open>
  The continuation lines of a chunk, from the text that is left behind its first line: full
  lines of 35 characters that continue, then the line that closes the tag.
\<close>

fun tailLines :: "string \<Rightarrow> string list" where
  "tailLines s =
     (if length s < 35 then [kwdOpen @ s @ closeTag]
      else (kwdOpen @ take 35 s @ ''-'') # tailLines (drop 35 s))"

declare tailLines.simps [simp del]

section \<open>Example documents\<close>

definition datedSource :: string where
  \<comment> \<open>two lines, both with a sequence number and date in front\<close>
  "datedSource =
     ''000100210101     A          R REC1'' @ CRLF @ ''000200210101     A            FLD1''"

definition sampleFormat :: json where
  \<comment> \<open>the payload of record format \<open>RECFMT1\<close> with an empty item list\<close>
  "sampleFormat =
     JObj [(''screen'', JObj [(''record format name'', JStr ''RECFMT1'')]), (''items'', JArr [])]"

definition longFormat :: json where
  \<comment> \<open>a payload of record format \<open>R\<close> whose one item has an identifier of 2471 letters\<close>
  "longFormat =
     JObj [(''screen'', JObj [(''record format name'', JStr ''R'')]),
           (''items'', JArr [JObj [(''id'', JStr (replicate 2471 (CHR ''a'')))]])]"

definition sampleDoc :: "string list" where
  \<comment> \<open>a header, a hidden field and the payload of \<open>sampleFormat\<close> as the Renderer lays it out\<close> \<open>sampleDoc = [''     A          R RECFMT1'',
      ''     A            FLD1          10A  H'',
      ''     A                                  1  2HTML('{"screen":{"record format nam-'',
      ''     A                                      e":"RECFMT1"},"items":[]}')'']\<close>
definition garbledOpen :: "string" where
  \<comment> \<open>a well-formed tag-open line that continues\<close> \<open>garbledOpen = ''     A                                  1  2HTML('{"screen":{"record format nam-''\<close>
definition garbledRest :: "string list" where
  \<comment> \<open>the rest of that region, with a bracket that is never closed, then a record format
      \<open>REC3\<close> with a well-formed payload\<close> \<open>garbledRest = [''     A                                      e":"REC2"},"items":[}')'',
      ''     A          R REC3'',
      ''     A                                  1  2HTML('{"screen":{"record format nam-'',
      ''     A                                      e":"REC3"},"items":[]}')'']\<close>
definition brokenLine :: "string list" where
  \<comment> \<open>a record format whose tag opens and closes on one line around text that is no JSON\<close> \<open>brokenLine = [''     A          R REC2'',
      ''     A                                      HTML('{"screen"}')'']\<close>

definition mergeDoc :: "string list" where
  \<comment> \<open>\<open>sampleDoc\<close>, one more field, and a tag-open line that continues into the end of the document\<close>
  \<open>mergeDoc = [''     A          R RECFMT1'',
      ''     A            FLD1          10A  H'',
      ''     A                                  1  2HTML('{"screen":{"record format nam-'',
      ''     A                                      e":"RECFMT1"},"items":[]}')'',
      ''     A            FLD2          10A  B'',
      ''     A                                  1  2HTML('{"screen":{"record format nam-'']\<close>

definition blankTypeDoc :: "string list" where
  \<comment> \<open>\<open>sampleDoc\<close> with the form type \<open>A\<close> left out on the continuation line, and one more field\<close>
  \<open>blankTypeDoc = [''     A          R RECFMT1'',
      ''     A            FLD1          10A  H'',
      ''     A                                  1  2HTML('{"screen":{"record format nam-'',
      ''                                            e":"RECFMT1"},"items":[]}')'',
      ''     A            FLD2          10A  B'']\<close>

definition scenarioDoc :: "string list" where
  \<comment> \<open>the concrete scenario of the specification: header, field, and the payload on one line\<close>
  \<open>scenarioDoc = [''     A          R RECFMT1'',
      ''     A            FLD1          10A  H'',
      ''     A                                  1  2HTML('{"screen":{"record format name":"RECFMT1"},"items":[]}')'']\<close>

definition spacedDoc :: "string list" where
  \<comment> \<open>\<open>sampleDoc\<close> with a blank behind the first colon and the second comma of the payload\<close>
  \<open>spacedDoc = [''     A          R RECFMT1'',
      ''     A            FLD1          10A  H'',
      ''     A                                  1  2HTML('{"screen": {"record format na-'',
      ''     A                                      me":"RECFMT1"}, "items":[]}')'']\<close>

definition otherDoc :: "string list" where
  \<comment> \<open>\<open>sampleDoc\<close> for a record format named \<open>OTHER\<close>\<close>
  \<open>otherDoc = [''     A          R OTHER'',
      ''     A            FLD1          10A  H'',
      ''     A                                  1  2HTML('{"screen":{"record format nam-'',
      ''     A                                      e":"OTHER"},"items":[]}')'']\<close>

definition mixedCaseFormat :: json where
  "mixedCaseFormat =
     JObj [(''screen'', JObj [(''record format name'', JStr ''RecFmt1'')]), (''items'', JArr [])]"

definition mixedCaseDoc :: "string list" where
  \<comment> \<open>\<open>sampleDoc\<close> with the payload of \<open>mixedCaseFormat\<close>\<close>
  \<open>mixedCaseDoc = [''     A          R RECFMT1'',
      ''     A            FLD1          10A  H'',
      ''     A                                  1  2HTML('{"screen":{"record format nam-'',
      ''     A                                      e":"RecFmt1"},"items":[]}')'']\<close>

definition boundFormat :: json where
  \<comment> \<open>a payload whose two items are bound to the fields \<open>fld1\<close> and \<open>Fld2\<close>\<close>
  "boundFormat =
     JObj [(''screen'', JObj [(''record format name'', JStr ''RECFMT1'')]),
           (''items'', JArr [JObj [(''id'', JStr ''Out1''), (''value'', JObj [(''fieldName'', JStr ''fld1'')])],
                             JObj [(''id'', JStr ''Out2''), (''value'', JObj [(''fieldName'', JStr ''Fld2'')])]])]"

definition nestedFormat :: json where
  \<comment> \<open>a payload whose only \<open>fieldName\<close> lies one level deeper, inside a column of a grid\<close>
  "nestedFormat =
     JObj [(''screen'', JObj [(''record format name'', JStr ''RECFMT1'')]),
           (''items'', JArr [JObj [(''id'', JStr ''Grid1''),
                                   (''column'', JObj [(''value'', JObj [(''fieldName'', JStr ''fld1'')])])]])]"

definition boundDoc :: "string list" where
  \<comment> \<open>a hidden field \<open>FLD1\<close>, the payload of \<open>boundFormat\<close>, the hidden fields \<open>FLD2\<close> and \<open>FLD3\<close>,
      and a field \<open>FLD4\<close> that is not hidden\<close>
  \<open>boundDoc = [''     A          R RECFMT1'',
      ''     A            FLD1          10A  H'',
      ''     A                                  1  2HTML('{"screen":{"record format nam-'',
      ''     A                                      e":"RECFMT1"},"items":[{"id":"Out1"-'',
      ''     A                                      ,"value":{"fieldName":"fld1"}},{"id-'',
      ''     A                                      ":"Out2","value":{"fieldName":"Fld2-'',
      ''     A                                      "}}]}')'',
      ''     A            FLD2          10A  H'',
      ''     A            FLD3          10A  H'',
      ''     A            FLD4          10A  B'']\<close>

definition boundState :: dds where
  \<comment> \<open>the state of the loop of \<open>getDdsFromSrc\<close> on \<open>boundDoc\<close> behind the payload region\<close>
  "boundState =
     \<lparr>isSFL = False, rcdFmtObj = Some [boundFormat], boundFields = Some [''FLD1'', ''FLD2''],
      returnDds = [boundDoc ! 0, boundDoc ! 1]\<rparr>"

section \<open>Properties of the string primitives\<close>

lemma substr_nat: "substr s (int a) (int b) = take b (drop a s)"
  by (auto simp: substr_def Let_def min_def max_def)

lemma substr_0: "substr s 0 (int b) = take b s"
  using substr_nat [of s 0 b] by simp

lemma substrFrom_nat: "substrFrom s (int a) = drop a s"
  by (simp add: substrFrom_def substr_nat)

section \<open>Properties of the Chunker\<close>

lemma fixSingleQuotes_single: "fixSingleQuotes [c] = [c]"
  by (subst fixSingleQuotes.simps) simp

lemma fixSingleQuotes_nil: "fixSingleQuotes [] = []"
  by (subst fixSingleQuotes.simps) simp

lemma fixSingleQuotes_two:
  "fixSingleQuotes (xs @ [p, c]) =
     xs @ [p @ takeWhile (\<lambda>x. x = quote) c, dropWhile (\<lambda>x. x = quote) c]"
proof (induction c arbitrary: p)
  case Nil
  show ?case
    by (subst fixSingleQuotes.simps) (simp add: substr_def Let_def nth_append)
next
  case (Cons a c)
  show ?case
  proof (cases "a = quote")
    case True
    have "fixSingleQuotes (xs @ [p, a # c]) = fixSingleQuotes (xs @ [p @ [quote], c])"
      using True
      by (subst fixSingleQuotes.simps)
         (simp add: substr_def substrFrom_def Let_def nth_append list_update_append)
    then show ?thesis
      using True Cons.IH [of "p @ [quote]"] by simp
  next
    case False
    then show ?thesis
      by (subst fixSingleQuotes.simps) (simp add: substr_def Let_def nth_append)
  qed
qed

lemma fixSingleQuotes_snoc:
  "fixSingleQuotes (cs @ [c]) =
     (if cs = [] then [c]
      else butlast cs @ [last cs @ takeWhile (\<lambda>x. x = quote) c, dropWhile (\<lambda>x. x = quote) c])"
proof (cases cs rule: rev_cases)
  case Nil
  then show ?thesis by (simp add: fixSingleQuotes_single)
next
  case (snoc xs p)
  then show ?thesis using fixSingleQuotes_two [of xs p c] by simp
qed

lemma concat_fixSingleQuotes_snoc: "concat (fixSingleQuotes (cs @ [c])) = concat cs @ c"
proof (cases cs rule: rev_cases)
  case Nil
  then show ?thesis by (simp add: fixSingleQuotes_single)
next
  case (snoc xs p)
  then show ?thesis using fixSingleQuotes_two [of xs p c] by simp
qed

lemma fixSingleQuotes_snoc_noquote:
  "quote \<notin> set c \<Longrightarrow> fixSingleQuotes (cs @ [c]) = cs @ [c]"
proof -
  assume q: "quote \<notin> set c"
  have t: "takeWhile (\<lambda>x. x = quote) c = []"
    using q by (cases c) auto
  have d: "dropWhile (\<lambda>x. x = quote) c = c"
    using q by (cases c) auto
  show ?thesis
    by (cases cs rule: rev_cases) (simp_all add: fixSingleQuotes_single fixSingleQuotes_two t d)
qed

lemma chunksBounded_push:
  assumes "chunksBounded bytes cs" and "length c \<le> bytes"
  shows "chunksBounded bytes (fixSingleQuotes (cs @ [c]))"
proof (cases cs rule: rev_cases)
  case Nil
  with assms show ?thesis by (simp add: fixSingleQuotes_single chunksBounded_def)
next
  case (snoc xs p)
  have d: "length (dropWhile (\<lambda>x. x = quote) c) \<le> bytes"
    using assms(2) length_dropWhile_le [of "\<lambda>x. x = quote" c] by linarith
  have t: "length (takeWhile (\<lambda>x. x = quote) c) \<le> bytes"
    using assms(2) length_takeWhile_le [of "\<lambda>x. x = quote" c] by linarith
  from assms(1) snoc have p: "length p \<le> bytes" and xs: "list_all (\<lambda>c. length c \<le> 2 * bytes) xs"
    by (simp_all add: chunksBounded_def)
  show ?thesis
    using snoc fixSingleQuotes_two [of xs p c] d t p xs
    by (simp add: chunksBounded_def)
qed

lemma trimChunkSize_le: "trimChunkSize data k \<le> k"
  by (induction k) auto

lemma length_fixSingleQuotes_snoc: "length (fixSingleQuotes (cs @ [c])) = Suc (length cs)"
  by (cases cs rule: rev_cases) (simp_all add: fixSingleQuotes_single fixSingleQuotes_two)

lemma chunkLoop_returns:
  assumes "0 < bytes"
  shows "\<exists>cs. chunkLoop data bytes chunks = Some cs
           \<and> concat cs = concat chunks @ data
           \<and> (chunksBounded bytes chunks \<longrightarrow> chunksBounded bytes cs)
           \<and> (quote \<notin> set data \<and> list_all (\<lambda>c. length c \<le> bytes) chunks
                \<longrightarrow> list_all (\<lambda>c. length c \<le> bytes) cs)
           \<and> (data \<noteq> [] \<or> chunks \<noteq> [] \<longrightarrow> cs \<noteq> [])"
proof (induction "length data" arbitrary: data chunks rule: less_induct)
  case less
  show ?case
  proof (cases "length data > bytes")
    case False
    show ?thesis
    proof (cases "data = []")
      case True
      then show ?thesis
        by (subst chunkLoop.simps) simp
    next
      case ne: False
      have r: "chunkLoop data bytes chunks = Some (fixSingleQuotes (chunks @ [data]))"
        using False ne by (subst chunkLoop.simps) simp
      have l: "length data \<le> bytes"
        using False by simp
      have "fixSingleQuotes (chunks @ [data]) \<noteq> []"
        using length_fixSingleQuotes_snoc [of chunks data] by auto
      then show ?thesis
        using r chunksBounded_push [OF _ l, of chunks] l
        by (simp add: concat_fixSingleQuotes_snoc fixSingleQuotes_snoc_noquote)
    qed
  next
    case True
    define k where
      "k = (if trimChunkSize data bytes = 0 then bytes else trimChunkSize data bytes)"
    have k: "0 < k" "k \<le> bytes"
      using assms trimChunkSize_le [of data bytes] by (auto simp: k_def)
    define c where "c = take k data"
    define d where "d = drop k data"
    define chunks' where "chunks' = fixSingleQuotes (chunks @ [c])"
    have unfold: "chunkLoop data bytes chunks = chunkLoop d bytes chunks'"
      using True
      by (subst chunkLoop.simps)
         (simp add: Let_def k_def substr_0 substrFrom_nat c_def d_def chunks'_def)
    have len: "length d < length data"
      using True k by (simp add: d_def)
    from less [OF len, of chunks'] obtain cs where cs: "chunkLoop d bytes chunks' = Some cs"
      "concat cs = concat chunks' @ d"
      "chunksBounded bytes chunks' \<longrightarrow> chunksBounded bytes cs"
      "quote \<notin> set d \<and> list_all (\<lambda>c. length c \<le> bytes) chunks'
         \<longrightarrow> list_all (\<lambda>c. length c \<le> bytes) cs"
      "d \<noteq> [] \<or> chunks' \<noteq> [] \<longrightarrow> cs \<noteq> []"
      by blast
    have lc: "length c \<le> bytes"
      using k by (simp add: c_def)
    have cd: "c @ d = data"
      by (simp add: c_def d_def)
    have c1: "concat cs = concat chunks @ data"
      using cs(2) cd by (simp add: chunks'_def concat_fixSingleQuotes_snoc)
    have c2: "chunksBounded bytes chunks \<longrightarrow> chunksBounded bytes cs"
      using cs(3) chunksBounded_push [OF _ lc, of chunks] by (simp add: chunks'_def)
    have c3: "quote \<notin> set data \<and> list_all (\<lambda>c. length c \<le> bytes) chunks
                \<longrightarrow> list_all (\<lambda>c. length c \<le> bytes) cs"
    proof
      assume a: "quote \<notin> set data \<and> list_all (\<lambda>c. length c \<le> bytes) chunks"
      then have "quote \<notin> set c" "quote \<notin> set d"
        by (auto simp: c_def d_def dest: in_set_takeD in_set_dropD)
      with a lc cs(4) show "list_all (\<lambda>c. length c \<le> bytes) cs"
        by (simp add: chunks'_def fixSingleQuotes_snoc_noquote)
    qed
    have "chunks' \<noteq> []"
      using length_fixSingleQuotes_snoc [of chunks c] by (auto simp: chunks'_def)
    with cs(5) have c4: "cs \<noteq> []"
      by simp
    show ?thesis
      using unfold cs(1) c1 c2 c3 c4 by simp
  qed
qed

lemma chunkData_concat:
  "0 < bytes \<Longrightarrow> \<exists>cs. chunkData S bytes = Some cs \<and> concat cs = S"
  using chunkLoop_returns [of bytes S "[]"] by (auto simp: chunkData_def)


text \<open>
  \<^bold>\<open>C5\<close> as stated (every chunk is at most \<open>N\<close> characters long) fails: the quote repair
  appends the leading quotes of a chunk to its predecessor, which may already hold \<open>N\<close>
  characters. With \<open>N = 2\<close> and the five characters \<open>a b ' c d\<close> the first chunk returned
  is the three characters \<open>a b '\<close>.
\<close>

theorem chunkData_size_counterexample:
  "chunkData (''ab'' @ [quote] @ ''cd'') 2 = Some [''ab'' @ [quote], ''c'', ''d'']
   \<and> \<not> list_all (\<lambda>c. length c \<le> 2) [''ab'' @ [quote], ''c'', ''d'']"
  by code_simp

text \<open>
  \<^bold>\<open>C5\<close>, amended: for every input string and every positive chunk size \<open>N\<close>, \<open>chunkData\<close>
  returns, every chunk it returns is at most \<open>2 * N\<close> characters long (the \<open>N\<close> it was cut
  with, plus the leading quotes moved over from the next chunk), the last chunk is at most
  \<open>N\<close> long, and every chunk is at most \<open>N\<close> long when the input holds no single quote.
\<close>

theorem chunkData_chunk_size:
  assumes "0 < N"
  shows "\<exists>cs. chunkData S N = Some cs
           \<and> list_all (\<lambda>c. length c \<le> 2 * N) cs
           \<and> (cs = [] \<or> length (last cs) \<le> N)
           \<and> (quote \<notin> set S \<longrightarrow> list_all (\<lambda>c. length c \<le> N) cs)"
  using chunkLoop_returns [OF assms, of S "[]"]
  by (auto simp: chunkData_def chunksBounded_def)

theorem chunkData_chunk_size_witness:
  "0 < (2::nat) \<and> quote \<notin> set ''abcde''
   \<and> (\<exists>cs. chunkData ''abcde'' 2 = Some cs
          \<and> list_all (\<lambda>c. length c \<le> 2 * 2) cs
          \<and> (cs = [] \<or> length (last cs) \<le> 2)
          \<and> list_all (\<lambda>c. length c \<le> 2) cs)"
  using chunkData_chunk_size [of 2 "''abcde''"] by (auto simp: quote_def)

text \<open>
  \<^bold>\<open>C6\<close>: re-joining the chunks gives back the input (\<open>chunkData_concat\<close>), but a chunk
  after the first can begin with a single quote. The repair only looks at the newest chunk:
  when a chunk is emptied by the repair (it held nothing but quotes) and the next chunk
  begins with a quote, that quote is appended to the empty chunk, which now begins with it
  and is never repaired again. With \<open>N = 2\<close> and the input \<open>a b ' ' ' c\<close> (six characters)
  the chunks returned are \<open>a b ' '\<close>, a lone quote, and \<open>c\<close>.
\<close>

theorem chunkData_leading_quote:
  "chunkData (''ab'' @ [quote, quote, quote] @ ''c'') 2
     = Some [''ab'' @ [quote, quote], [quote], ''c'']
   \<and> concat [''ab'' @ [quote, quote], [quote], ''c''] = ''ab'' @ [quote, quote, quote] @ ''c''
   \<and> hd ([''ab'' @ [quote, quote], [quote], ''c''] ! 1) = quote"
  by code_simp

section \<open>Properties of the prefix handling\<close>

lemma splitAt_nonempty: "splitAt cur s \<noteq> []"
  by (induction cur s rule: splitAt.induct) auto

lemma parseIntIsNaN_nil: "parseIntIsNaN []"
  by (simp add: parseIntIsNaN_def)

lemma number_nonempty: "\<not> parseIntIsNaN (substr l 0 12) \<Longrightarrow> l \<noteq> []"
  using parseIntIsNaN_nil by (auto simp: substr_def)

lemma drop_same: "0 < n \<Longrightarrow> drop n l = l \<longleftrightarrow> l = []"
proof
  assume n: "0 < n" and "drop n l = l"
  then have "length l - n = length l" by (simp flip: length_drop)
  with n have "length l = 0" by arith
  then show "l = []" by simp
qed simp

lemma stripSourceDate_same:
  "stripSourceDate l = l \<longleftrightarrow> l = [] \<or> parseIntIsNaN (substr l 0 12)"
proof (cases "parseIntIsNaN (substr l 0 12)")
  case True
  then show ?thesis by (simp add: stripSourceDate_def)
next
  case False
  from number_nonempty [OF this] have "drop 12 l \<noteq> l"
    by (simp add: drop_same)
  with False number_nonempty [OF False] show ?thesis
    using substrFrom_nat [of l 12] by (simp add: stripSourceDate_def)
qed

lemma stripSourceDate_cut:
  "stripSourceDate l = substrFrom l 12 \<longleftrightarrow> l = [] \<or> \<not> parseIntIsNaN (substr l 0 12)"
proof (cases "parseIntIsNaN (substr l 0 12)")
  case False
  then show ?thesis by (simp add: stripSourceDate_def)
next
  case True
  have "drop 12 l = l \<longleftrightarrow> l = []"
    by (simp add: drop_same)
  with True show ?thesis
    using substrFrom_nat [of l 12] by (auto simp: stripSourceDate_def)
qed

lemma map_same_iff: "map f xs = xs \<longleftrightarrow> (\<forall>x \<in> set xs. f x = x)"
  by (induction xs) auto

text \<open>
  \<^bold>\<open>C2\<close> as stated (presence of the prefix is decided once, on the first line, and the
  prefix is then stripped from every line) fails: \<open>jsonToDds\<close> and \<open>ddsToJson\<close> test every
  line by itself. In a document whose first line carries no prefix and whose second line
  begins with twelve digits, the second line alone loses its first twelve characters. In
  \<open>verifyConvert\<close>, where the first line does decide whether anything is stripped, a later
  line without a number in front keeps its first twelve characters.
\<close>

theorem originalDdsLines_counterexample:
  "originalDdsLines (''     A          R REC1'' @ CRLF @ ''000100210101     A            FLD1'')
     = [''     A          R REC1'', ''     A            FLD1'']
   \<and> stripDocumentWide (''     A          R REC1'' @ CRLF @ ''000100210101     A            FLD1'')
     = [''     A          R REC1'', ''000100210101     A            FLD1'']
   \<and> verifyConvertLines (''000100210101     A          R REC1'' @ CRLF @ ''     A            FLD1'')
     = [''     A          R REC1'', ''     A            FLD1'']
   \<and> stripDocumentWide (''000100210101     A          R REC1'' @ CRLF @ ''     A            FLD1'')
     = [''     A          R REC1'', ''      FLD1'']"
  by code_simp

text \<open>
  \<^bold>\<open>C2\<close>, amended. \<open>jsonToDds\<close> and \<open>ddsToJson\<close> test the prefix on every line by itself:
  a line loses its first twelve characters exactly when its own first twelve characters
  parse as a number. \<open>verifyConvert\<close> hands the lines on as they are when the first line has
  no such prefix, and applies the same per-line map otherwise. The result is that of the
  document-wide rule exactly when every non-empty line agrees with the first line on the
  test (for \<open>verifyConvert\<close>: when the first line has no prefix, or every non-empty line
  has one).
\<close>

theorem originalDdsLines_per_line:
  "originalDdsLines src =
     map (\<lambda>l. if parseIntIsNaN (substr l 0 12) then l else substrFrom l 12) (splitCRLF src)
   \<and> verifyConvertLines src =
       (if parseIntIsNaN (substr (hd (splitCRLF src)) 0 12) then splitCRLF src
        else originalDdsLines src)
   \<and> (originalDdsLines src = stripDocumentWide src \<longleftrightarrow>
        (\<forall>l \<in> set (splitCRLF src). l \<noteq> [] \<longrightarrow>
           parseIntIsNaN (substr l 0 12) = parseIntIsNaN (substr (hd (splitCRLF src)) 0 12)))
   \<and> (verifyConvertLines src = stripDocumentWide src \<longleftrightarrow>
        parseIntIsNaN (substr (hd (splitCRLF src)) 0 12)
        \<or> (\<forall>l \<in> set (splitCRLF src). l \<noteq> [] \<longrightarrow> \<not> parseIntIsNaN (substr l 0 12)))"
proof -
  obtain first rest where ls: "splitCRLF src = first # rest"
    using splitAt_nonempty [of "[]" src] by (cases "splitCRLF src") (auto simp: splitCRLF_def)
  have 1: "originalDdsLines src =
     map (\<lambda>l. if parseIntIsNaN (substr l 0 12) then l else substrFrom l 12) (splitCRLF src)"
    by (simp add: originalDdsLines_def stripSourceDate_def [abs_def])
  have 2: "verifyConvertLines src =
       (if parseIntIsNaN (substr (hd (splitCRLF src)) 0 12) then splitCRLF src
        else originalDdsLines src)"
    by (simp add: verifyConvertLines_def originalDdsLines_def ls)
  have wide: "stripDocumentWide src =
       (if parseIntIsNaN (substr first 0 12) then first # rest
        else map (\<lambda>l. substrFrom l 12) (first # rest))"
    by (simp add: stripDocumentWide_def ls)
  have same: "map stripSourceDate (first # rest) = first # rest \<longleftrightarrow>
       (\<forall>l \<in> set (first # rest). l \<noteq> [] \<longrightarrow> parseIntIsNaN (substr l 0 12))"
    unfolding map_same_iff stripSourceDate_same by blast
  have cut: "map stripSourceDate (first # rest) = map (\<lambda>l. substrFrom l 12) (first # rest) \<longleftrightarrow>
       (\<forall>l \<in> set (first # rest). l \<noteq> [] \<longrightarrow> \<not> parseIntIsNaN (substr l 0 12))"
    unfolding map_eq_conv stripSourceDate_cut by blast
  have 3: "originalDdsLines src = stripDocumentWide src \<longleftrightarrow>
        (\<forall>l \<in> set (splitCRLF src). l \<noteq> [] \<longrightarrow>
           parseIntIsNaN (substr l 0 12) = parseIntIsNaN (substr (hd (splitCRLF src)) 0 12))"
  proof (cases "parseIntIsNaN (substr first 0 12)")
    case True
    with same show ?thesis
      by (simp only: originalDdsLines_def wide ls list.sel if_True simp_thms)
  next
    case False
    with cut show ?thesis
      by (simp only: originalDdsLines_def wide ls list.sel if_False simp_thms)
  qed
  have 4: "verifyConvertLines src = stripDocumentWide src \<longleftrightarrow>
        parseIntIsNaN (substr (hd (splitCRLF src)) 0 12)
        \<or> (\<forall>l \<in> set (splitCRLF src). l \<noteq> [] \<longrightarrow> \<not> parseIntIsNaN (substr l 0 12))"
  proof (cases "parseIntIsNaN (substr first 0 12)")
    case True
    then show ?thesis
      by (simp add: verifyConvertLines_def wide ls)
  next
    case False
    with cut show ?thesis
      by (simp only: verifyConvertLines_def wide ls list.sel if_False simp_thms list.case)
  qed
  from 1 2 3 4 show ?thesis by blast
qed

theorem originalDdsLines_per_line_witness:
  "splitCRLF datedSource
     = [''000100210101     A          R REC1'', ''000200210101     A            FLD1'']
   \<and> \<not> parseIntIsNaN (substr ''000100210101     A          R REC1'' 0 12)
   \<and> \<not> parseIntIsNaN (substr ''000200210101     A            FLD1'' 0 12)
   \<and> originalDdsLines datedSource = [''     A          R REC1'', ''     A            FLD1'']
   \<and> originalDdsLines datedSource = stripDocumentWide datedSource
   \<and> verifyConvertLines datedSource = stripDocumentWide datedSource"
proof -
  have s: "splitCRLF datedSource
     = [''000100210101     A          R REC1'', ''000200210101     A            FLD1'']"
    by code_simp
  have n1: "\<not> parseIntIsNaN (substr ''000100210101     A          R REC1'' 0 12)"
    by code_simp
  have n2: "\<not> parseIntIsNaN (substr ''000200210101     A            FLD1'' 0 12)"
    by code_simp
  have c1: "substrFrom ''000100210101     A          R REC1'' 12 = ''     A          R REC1''"
    by code_simp
  have c2: "substrFrom ''000200210101     A            FLD1'' 12 = ''     A            FLD1''"
    by code_simp
  note T = originalDdsLines_per_line [of datedSource, unfolded s]
  from T [THEN conjunct1] n1 n2 c1 c2
  have a: "originalDdsLines datedSource = [''     A          R REC1'', ''     A            FLD1'']"
    by simp
  from T [THEN conjunct2, THEN conjunct2, THEN conjunct1] n1 n2
  have b: "originalDdsLines datedSource = stripDocumentWide datedSource"
    by simp
  from T [THEN conjunct2, THEN conjunct2, THEN conjunct2] n1 n2
  have c: "verifyConvertLines datedSource = stripDocumentWide datedSource"
    by simp
  from s n1 n2 a b c show ?thesis by blast
qed

section \<open>Properties of the Renderer\<close>



lemma length_kwdOpen: "length kwdOpen = 44"
  by (simp add: kwdOpen_def)









lemma substr_char: "a < length s \<Longrightarrow> substr s (int a) 1 = [s ! a]"
  using substr_nat [of s a 1] by (simp add: take_Suc_conv_app_nth hd_drop_conv_nth take_Suc)

lemma trimChunkSize_keep:
  "0 < k \<Longrightarrow> k \<le> length data \<Longrightarrow> data ! (k - 1) \<noteq> CHR '' '' \<Longrightarrow> trimChunkSize data k = k"
  by (cases k) (auto simp: substr_char)

lemma chunkData_two:
  assumes "0 < bytes" "bytes < length data" "length data \<le> 2 * bytes"
    and "data ! (bytes - 1) \<noteq> CHR '' ''" and "data ! bytes \<noteq> quote"
  shows "chunkData data bytes = Some [take bytes data, drop bytes data]"
proof -
  have t: "trimChunkSize data bytes = bytes"
    using assms by (simp add: trimChunkSize_keep)
  have 1: "chunkLoop data bytes [] = chunkLoop (drop bytes data) bytes [take bytes data]"
    using assms t
    by (subst chunkLoop.simps) (simp add: Let_def substr_0 substrFrom_nat fixSingleQuotes_single)
  have d: "drop bytes data \<noteq> []" "hd (drop bytes data) \<noteq> quote"
    using assms by (simp_all add: hd_drop_conv_nth)
  then have tw: "takeWhile (\<lambda>x. x = quote) (drop bytes data) = []"
     "dropWhile (\<lambda>x. x = quote) (drop bytes data) = drop bytes data"
    by (cases "drop bytes data"; simp)+
  have f: "fixSingleQuotes ([take bytes data] @ [drop bytes data]) = [take bytes data, drop bytes data]"
    using fixSingleQuotes_two [of "[]" "take bytes data" "drop bytes data"] tw by simp
  have s: "\<not> bytes < length (drop bytes data)" "0 < length (drop bytes data)"
    using assms by simp_all
  have 2: "chunkLoop (drop bytes data) bytes [take bytes data]
            = Some [take bytes data, drop bytes data]"
    by (subst chunkLoop.simps) (simp only: s f if_False if_True)
  show ?thesis
    by (simp add: chunkData_def 1 2)
qed

lemma concat_replicate_single: "concat (replicate n [x]) = replicate n x"
  by (induction n) simp_all

lemma escapeQuotes_noquote: "quote \<notin> set s \<Longrightarrow> escapeQuotes s = s"
  by (induction s) (auto simp: escapeQuotes_def)

lemma stringify_long:
  "JSON_stringify longFormat
     = ''{'' @ [CHR 0x22] @ ''screen'' @ [CHR 0x22] @ '':{'' @ [CHR 0x22] @ ''record format name''
       @ [CHR 0x22] @ '':'' @ [CHR 0x22] @ ''R'' @ [CHR 0x22] @ ''},'' @ [CHR 0x22] @ ''items''
       @ [CHR 0x22] @ '':[{'' @ [CHR 0x22] @ ''id'' @ [CHR 0x22] @ '':'' @ [CHR 0x22]
       @ replicate 2471 (CHR ''a'') @ [CHR 0x22] @ ''}]}''"
  by (simp add: longFormat_def quoteJSONString_def escapeChar_def concat_replicate_single)

lemma length_htmlOpenOf: "length (htmlOpenOf n) = 47 + length n"
  by (simp add: htmlOpenOf_def)

lemma contLoop_done: "int (length chunk) \<le> pos \<Longrightarrow> contLoop chunk pos st = st"
  by (subst contLoop.simps) (simp add: Let_def)

lemma renderChunks_28:
  assumes "length htmlOpen = 50" and "length chunk = 28"
  shows "renderChunks htmlOpen [chunk] rtnLines
           = rtnLines @ [htmlOpen @ chunk @ ''-'', kwdOpen @ closeTag]"
  using assms substr_0 [of chunk 29]
  by (simp add: Let_def contLoop_done)

lemma renderChunks_continue:
  assumes "length htmlOpen = 50" and "28 \<le> length chunk"
  shows "\<exists>rtn. renderChunks htmlOpen (chunk # rest) rtnLines = renderChunks htmlOpen rest rtn"
proof -
  have "\<not> int (length (substr chunk 0 29)) \<le> 27"
    using assms(2) substr_0 [of chunk 29] by simp
  then show ?thesis
    using assms(1) by (simp add: Let_def) blast
qed

lemma length_substr_le: "0 \<le> len \<Longrightarrow> int (length (substr s pos len)) \<le> len"
  by (auto simp: substr_def Let_def min_def max_def)

lemma contLoop_width:
  "list_all (\<lambda>l. length l \<le> 80) (snd st)
     \<Longrightarrow> list_all (\<lambda>l. length l \<le> 80) (snd (contLoop chunk pos st))"
proof (induction chunk pos st rule: contLoop.induct)
  case (1 chunk pos st)
  let ?len = "79 - int (length kwdOpen)"
  let ?d = "kwdOpen @ substr chunk pos ?len"
  have d: "length ?d \<le> 79"
    using length_substr_le [of 35 chunk pos] by (simp add: length_kwdOpen)
  show ?case
  proof (cases "pos < int (length chunk)")
    case False
    then show ?thesis
      using "1.prems" by (subst contLoop.simps) (simp add: Let_def)
  next
    case True
    show ?thesis
    proof (cases "length ?d = 79")
      case l: True
      have "list_all (\<lambda>l. length l \<le> 80)
              (snd (contLoop chunk (pos + ?len) (fst st, snd st @ [?d @ ''-''])))"
        using "1.IH"(1) [OF refl True refl l] "1.prems" l by simp
      then show ?thesis
        using True l by (subst contLoop.simps) (simp add: Let_def)
    next
      case l: False
      have "list_all (\<lambda>l. length l \<le> 80)
              (snd (contLoop chunk (pos + ?len) (True, snd st @ [?d @ closeTag])))"
        using "1.IH"(2) [OF refl True refl l] "1.prems" l d by (simp add: closeTag_def)
      then show ?thesis
        using True l by (subst contLoop.simps) (simp add: Let_def)
    qed
  qed
qed

lemma renderChunks_width:
  assumes "length htmlOpen = 50"
  shows "list_all (\<lambda>l. length l \<le> 80) rtnLines
     \<Longrightarrow> list_all (\<lambda>l. length l \<le> 80) (renderChunks htmlOpen chunks rtnLines)"
proof (induction chunks arbitrary: rtnLines)
  case Nil
  then show ?case by simp
next
  case (Cons chunk rest)
  let ?st = "contLoop chunk 29 (False, rtnLines @ [htmlOpen @ substr chunk 0 29 @ ''-''])"
  have a: "int (length (substr chunk 0 29)) \<le> 29"
    by (rule length_substr_le) simp
  have "list_all (\<lambda>l. length l \<le> 80) (snd ?st)"
    by (rule contLoop_width) (use Cons.prems assms a in simp)
  then have "list_all (\<lambda>l. length l \<le> 80)
               (if \<not> fst ?st then snd ?st @ [kwdOpen @ closeTag] else snd ?st)"
    by (simp add: length_kwdOpen closeTag_def)
  from Cons.IH [OF this] show ?case
    using Cons.prems assms a by (simp add: Let_def closeTag_def)
qed

lemma htmlObjToDdsLines_width:
  assumes "length htmlLineNum = 3" and "htmlObjToDdsLines htmlObj htmlLineNum = Some (Inr ls)"
  shows "list_all (\<lambda>l. length l \<le> 80) ls"
  using assms(2) renderChunks_width [of "htmlOpenOf htmlLineNum" "[]"] assms(1)
  by (auto simp: htmlObjToDdsLines_def length_htmlOpenOf split: option.splits)

text \<open>
  \<^bold>\<open>C10\<close>: with a three-character line number every rendered line is at most 80 characters
  long (\<open>htmlObjToDdsLines_width\<close>), but the continuation character is not always in
  column 80. The first line of a
  chunk is closed with \<open>-\<close> whenever fewer than two columns are left, without the test for
  a full line that the loop over the continuation lines makes: a chunk of exactly 28
  characters gives a first line of 79 characters with \<open>-\<close> in column 79, followed by the
  blank closing line. The payload below serialises to 2528 characters, so its second chunk
  is 28 characters long.
\<close>

theorem htmlObjToDdsLines_column_79:
  "\<exists>ls. htmlObjToDdsLines (Some longFormat) ''  1''
          = Some (Inr (ls @ [htmlOpenOf ''  1'' @ replicate 24 (CHR ''a'') @ [CHR 0x22] @ ''}]}'' @ ''-'',
                             kwdOpen @ closeTag]))
        \<and> length (htmlOpenOf ''  1'' @ replicate 24 (CHR ''a'') @ [CHR 0x22] @ ''}]}'' @ ''-'') = 79
        \<and> substr (htmlOpenOf ''  1'' @ replicate 24 (CHR ''a'') @ [CHR 0x22] @ ''}]}'' @ ''-'') 79 1 \<noteq> ''-''"
proof -
  define data where "data = escapeQuotes (JSON_stringify longFormat)"
  have data: "data = ''{'' @ [CHR 0x22] @ ''screen'' @ [CHR 0x22] @ '':{'' @ [CHR 0x22] @ ''record format name''
       @ [CHR 0x22] @ '':'' @ [CHR 0x22] @ ''R'' @ [CHR 0x22] @ ''},'' @ [CHR 0x22] @ ''items''
       @ [CHR 0x22] @ '':[{'' @ [CHR 0x22] @ ''id'' @ [CHR 0x22] @ '':'' @ [CHR 0x22]
       @ replicate 2471 (CHR ''a'') @ [CHR 0x22] @ ''}]}''"
    unfolding data_def stringify_long
    by (rule escapeQuotes_noquote) (simp add: quote_def)
  have len: "length data = 2528"
    by (simp add: data)
  have n1: "data ! 2499 = CHR ''a''"
    by (simp add: data nth_append nth_Cons')
  have n2: "data ! 2500 = CHR ''a''"
    by (simp add: data nth_append nth_Cons')
  have dr: "drop 2500 data = replicate 24 (CHR ''a'') @ [CHR 0x22] @ ''}]}''"
    by (simp add: data)
  have ch: "chunkData data 2500 = Some [take 2500 data, drop 2500 data]"
    by (rule chunkData_two) (simp_all add: len n1 n2 quote_def)
  have ho: "length (htmlOpenOf ''  1'') = 50"
    by (simp add: length_htmlOpenOf)
  obtain rtn where r: "renderChunks (htmlOpenOf ''  1'') [take 2500 data, drop 2500 data] []
            = renderChunks (htmlOpenOf ''  1'') [drop 2500 data] rtn"
    using renderChunks_continue [OF ho, of "take 2500 data" "[drop 2500 data]" "[]"] len
    by auto
  have "htmlObjToDdsLines (Some longFormat) ''  1''
          = Some (Inr (rtn @ [htmlOpenOf ''  1'' @ drop 2500 data @ ''-'', kwdOpen @ closeTag]))"
    using ch r renderChunks_28 [OF ho, of "drop 2500 data" rtn] len
    by (simp add: htmlObjToDdsLines_def data_def [symmetric])
  moreover have "length (htmlOpenOf ''  1'' @ replicate 24 (CHR ''a'') @ [CHR 0x22] @ ''}]}'' @ ''-'') = 79"
    by (simp add: ho)
  moreover have "substr (htmlOpenOf ''  1'' @ replicate 24 (CHR ''a'') @ [CHR 0x22] @ ''}]}'' @ ''-'') 79 1 = []"
    using ho by (simp add: substr_def Let_def)
  ultimately show ?thesis
    by (auto simp: dr)
qed

text \<open>
  The Tag Scanner tests column 80 only, so it cannot read such a rendering back: for a
  payload of 28 characters it takes the first line as closed, finds no closing marker on
  it, and hands the text before the tag to the parser.
\<close>

lemma rendered_28_not_read_back:
  "htmlObjToDdsLines (Some (JObj [(''screen'', JStr ''aaaaaaaaaaaaaaa'')])) ''  1''
     = Some (Inr [htmlOpenOf ''  1'' @ JSON_stringify (JObj [(''screen'', JStr ''aaaaaaaaaaaaaaa'')]) @ ''-'',
                  kwdOpen @ closeTag])
   \<and> length (JSON_stringify (JObj [(''screen'', JStr ''aaaaaaaaaaaaaaa'')])) = 28
   \<and> getFormatsFromSrc JSON_parse
         [''     A          R R'',
          htmlOpenOf ''  1'' @ JSON_stringify (JObj [(''screen'', JStr ''aaaaaaaaaaaaaaa'')]) @ ''-'',
          kwdOpen @ closeTag]
       = Inl SyntaxError"
  by code_simp

section \<open>Properties of the Tag Scanner\<close>

lemma scanLines_append:
  "scanLines parse st (xs @ ys) =
     (case scanLines parse st xs of Inl e \<Rightarrow> Inl e | Inr st' \<Rightarrow> scanLines parse st' ys)"
  by (induction xs arbitrary: st) (auto split: sum.splits)

lemma openTag_inv:
  "openTag parse st line = Inr st' \<Longrightarrow> htmlTag st = [] \<Longrightarrow> \<not> isHtmlJsonTag st' \<longrightarrow> htmlTag st' = []"
  by (auto simp: openTag_def Let_def split: if_splits sum.splits)

lemma scanLine_inv:
  "scanLine parse st line = Inr st' \<Longrightarrow> \<not> isHtmlJsonTag st \<longrightarrow> htmlTag st = []
     \<Longrightarrow> \<not> isHtmlJsonTag st' \<longrightarrow> htmlTag st' = []"
  by (auto simp: scanLine_def Let_def split: if_splits sum.splits dest: openTag_inv)

lemma scanLines_inv:
  "scanLines parse st ls = Inr st' \<Longrightarrow> \<not> isHtmlJsonTag st \<longrightarrow> htmlTag st = []
     \<Longrightarrow> \<not> isHtmlJsonTag st' \<longrightarrow> htmlTag st' = []"
proof (induction ls arbitrary: st)
  case Nil
  then show ?case by simp
next
  case (Cons l ls)
  then show ?case
    by (auto split: sum.splits dest: scanLine_inv)
qed

lemma scanLine_absorb:
  assumes "isHtmlJsonTag st"
    and "substr l 79 1 \<noteq> ''-'' \<longrightarrow> parse (unescapeQuotes (htmlTag st @ regionPiece l)) = None"
  shows "scanLine parse st l = Inr (st\<lparr>htmlTag := htmlTag st @ regionPiece l\<rparr>)"
  using assms by (simp add: scanLine_def regionPiece_def addToFormats_def Let_def)

lemma scanLines_absorb:
  assumes "isHtmlJsonTag st"
    and "list_all (\<lambda>t. parse (unescapeQuotes t) = None) (regionAttempts (htmlTag st) ls)"
  shows "\<exists>st'. scanLines parse st ls = Inr st' \<and> formats st' = formats st \<and> isHtmlJsonTag st'"
  using assms
proof (induction ls arbitrary: st)
  case Nil
  then show ?case by simp
next
  case (Cons l ls)
  let ?st1 = "st\<lparr>htmlTag := htmlTag st @ regionPiece l\<rparr>"
  have 1: "scanLine parse st l = Inr ?st1"
    by (rule scanLine_absorb) (use Cons.prems in auto)
  have "\<exists>st'. scanLines parse ?st1 ls = Inr st' \<and> formats st' = formats ?st1 \<and> isHtmlJsonTag st'"
    by (rule Cons.IH) (use Cons.prems in auto)
  with 1 show ?case by auto
qed

text \<open>
  \<^bold>\<open>C3\<close> as stated fails for a tag that opens and closes on one line: its \<open>JSON.parse\<close>
  stands outside the \<open>try\<close> of the callback, the exception ends the scan, and
  \<open>getFormatsFromSrc\<close> rejects; the payload parsed before it is not returned either.
\<close>

theorem getFormatsFromSrc_single_line_counterexample:
  "getFormatsFromSrc JSON_parse sampleDoc = Inr [sampleFormat]
   \<and> getFormatsFromSrc JSON_parse (sampleDoc @ brokenLine) = Inl SyntaxError"
  by code_simp

text \<open>
  \<^bold>\<open>C3\<close>, amended. Let the lines before a payload-tag-open line be scanned without an
  exception and leave no tag open. When the tag-open line continues (column 80 is \<open>-\<close>)
  and none of the texts handed to the parser up to the end of the document parses, the
  region is dropped silently: the scan completes normally and returns the payloads parsed
  before the region (every later line is taken into the region, so a payload behind it is
  not returned). When the tag-open line does not continue and its text does not parse,
  \<open>getFormatsFromSrc\<close> rejects with the \<open>SyntaxError\<close> of the parser.
\<close>

theorem getFormatsFromSrc_drops_unparsed:
  assumes "scanLines parse scanStart pre = Inr st" and "\<not> isHtmlJsonTag st"
    and "substr tagLine 44 7 = htmlTagOpen @ ''{''"
  shows "(substr tagLine 79 1 = ''-''
            \<and> list_all (\<lambda>t. parse (unescapeQuotes t) = None)
                 (regionAttempts (substring tagLine 50 79) rest)
          \<longrightarrow> getFormatsFromSrc parse (pre @ tagLine # rest) = Inr (formats st))
       \<and> (substr tagLine 79 1 \<noteq> ''-''
            \<and> parse (unescapeQuotes (substring tagLine 50 (lastIndexOf tagLine closeTag))) = None
          \<longrightarrow> getFormatsFromSrc parse (pre @ tagLine # rest) = Inl SyntaxError)"
proof (intro conjI impI)
  have e: "htmlTag st = []"
    using scanLines_inv [OF assms(1)] assms(2) by (simp add: scanStart_def)
  {
    assume a: "substr tagLine 79 1 = ''-''
            \<and> list_all (\<lambda>t. parse (unescapeQuotes t) = None)
                 (regionAttempts (substring tagLine 50 79) rest)"
    let ?st1 = "st\<lparr>isHtmlJsonTag := True, htmlTag := htmlTag st @ substring tagLine 50 79\<rparr>"
    have 1: "scanLine parse st tagLine = Inr ?st1"
      using assms(2,3) a by (simp add: scanLine_def openTag_def)
    have "\<exists>st'. scanLines parse ?st1 rest = Inr st' \<and> formats st' = formats ?st1 \<and> isHtmlJsonTag st'"
      by (rule scanLines_absorb) (use a e in simp_all)
    then obtain st' where 2: "scanLines parse ?st1 rest = Inr st'" "formats st' = formats st"
      by auto
    show "getFormatsFromSrc parse (pre @ tagLine # rest) = Inr (formats st)"
      using assms(1) 1 2 by (simp add: getFormatsFromSrc_def scanLines_append)
  }
  {
    assume a: "substr tagLine 79 1 \<noteq> ''-''
            \<and> parse (unescapeQuotes (substring tagLine 50 (lastIndexOf tagLine closeTag))) = None"
    have 1: "scanLine parse st tagLine = Inl SyntaxError"
      using assms(2,3) a e by (simp add: scanLine_def openTag_def addToFormats_def Let_def)
    show "getFormatsFromSrc parse (pre @ tagLine # rest) = Inl SyntaxError"
      using assms(1) 1 by (simp add: getFormatsFromSrc_def scanLines_append)
  }
qed

theorem getFormatsFromSrc_drops_unparsed_witness:
  "scanLines JSON_parse scanStart sampleDoc
     = Inr \<lparr>isHtmlJsonTag = False, htmlTag = [], formats = [sampleFormat]\<rparr>
   \<and> substr garbledOpen 44 7 = htmlTagOpen @ ''{''
   \<and> substr garbledOpen 79 1 = ''-''
   \<and> list_all (\<lambda>t. JSON_parse (unescapeQuotes t) = None)
        (regionAttempts (substring garbledOpen 50 79) garbledRest)
   \<and> length (regionAttempts (substring garbledOpen 50 79) garbledRest) = 3
   \<and> getFormatsFromSrc JSON_parse (sampleDoc @ garbledOpen # garbledRest) = Inr [sampleFormat]
   \<and> scanLines JSON_parse scanStart (sampleDoc @ [brokenLine ! 0])
     = Inr \<lparr>isHtmlJsonTag = False, htmlTag = [], formats = [sampleFormat]\<rparr>
   \<and> substr (brokenLine ! 1) 44 7 = htmlTagOpen @ ''{''
   \<and> substr (brokenLine ! 1) 79 1 \<noteq> ''-''
   \<and> JSON_parse (unescapeQuotes (substring (brokenLine ! 1) 50 (lastIndexOf (brokenLine ! 1) closeTag))) = None
   \<and> getFormatsFromSrc JSON_parse (sampleDoc @ [brokenLine ! 0] @ brokenLine ! 1 # []) = Inl SyntaxError"
proof -
  have a: "scanLines JSON_parse scanStart sampleDoc
     = Inr \<lparr>isHtmlJsonTag = False, htmlTag = [], formats = [sampleFormat]\<rparr>"
    by code_simp
  have b: "substr garbledOpen 44 7 = htmlTagOpen @ ''{''" "substr garbledOpen 79 1 = ''-''"
    by code_simp+
  have c: "list_all (\<lambda>t. JSON_parse (unescapeQuotes t) = None)
        (regionAttempts (substring garbledOpen 50 79) garbledRest)"
    by code_simp
  have c': "length (regionAttempts (substring garbledOpen 50 79) garbledRest) = 3"
    by code_simp
  have d: "scanLines JSON_parse scanStart (sampleDoc @ [brokenLine ! 0])
     = Inr \<lparr>isHtmlJsonTag = False, htmlTag = [], formats = [sampleFormat]\<rparr>"
    by code_simp
  have e: "substr (brokenLine ! 1) 44 7 = htmlTagOpen @ ''{''" "substr (brokenLine ! 1) 79 1 \<noteq> ''-''"
    "JSON_parse (unescapeQuotes (substring (brokenLine ! 1) 50 (lastIndexOf (brokenLine ! 1) closeTag))) = None"
    by code_simp+
  from getFormatsFromSrc_drops_unparsed [OF a _ b(1), of garbledRest, THEN conjunct1] b(2) c
  have f: "getFormatsFromSrc JSON_parse (sampleDoc @ garbledOpen # garbledRest) = Inr [sampleFormat]"
    by simp
  from getFormatsFromSrc_drops_unparsed [OF d _ e(1), of "[]", THEN conjunct2] e(2,3)
  have g: "getFormatsFromSrc JSON_parse (sampleDoc @ [brokenLine ! 0] @ brokenLine ! 1 # []) = Inl SyntaxError"
    by simp
  from a b c c' d e f g show ?thesis by blast
qed

section \<open>Properties of the Structural Merge Engine\<close>

lemma regionLoop_end:
  "length ls \<le> i \<Longrightarrow> regionLoop toUpperCase nf ls r l i = Some (Inr ([], i))"
  by (subst regionLoop.simps) simp

lemma regionLoop_step:
  "i < length ls \<Longrightarrow> \<not> regionStops ls i \<Longrightarrow> regionLoop toUpperCase nf ls r l i = regionLoop toUpperCase nf ls r l (Suc i)"
  by (subst regionLoop.simps) (auto simp: regionStops_def Let_def)

lemma regionLoop_stop:
  "regionStops ls j \<Longrightarrow>
     regionLoop toUpperCase nf ls r l j =
       (if j = 0 \<and> j \<noteq> length ls - 1 then Some (Inl TypeError)
        else (case renderRegion toUpperCase nf r l of
                None \<Rightarrow> None
              | Some (Inl e) \<Rightarrow> Some (Inl e)
              | Some (Inr new) \<Rightarrow> Some (Inr (new, j))))"
  by (subst regionLoop.simps) (auto simp: regionStops_def Let_def)

lemma regionLoop_skip:
  "i \<le> j \<Longrightarrow> j \<le> length ls \<Longrightarrow> \<forall>k. i \<le> k \<and> k < j \<longrightarrow> \<not> regionStops ls k
     \<Longrightarrow> regionLoop toUpperCase nf ls r l i = regionLoop toUpperCase nf ls r l j"
proof (induction "j - i" arbitrary: i)
  case 0
  then show ?case by simp
next
  case (Suc d)
  then have "i < length ls" "\<not> regionStops ls i" by auto
  then have "regionLoop toUpperCase nf ls r l i = regionLoop toUpperCase nf ls r l (Suc i)"
    by (rule regionLoop_step)
  also have "\<dots> = regionLoop toUpperCase nf ls r l j"
    using Suc by auto
  finally show ?case .
qed

lemma regionLoop_none:
  "\<forall>k. i \<le> k \<longrightarrow> \<not> regionStops ls k \<Longrightarrow> i \<le> length ls
     \<Longrightarrow> regionLoop toUpperCase nf ls r l i = Some (Inr ([], length ls))"
  using regionLoop_skip [of i "length ls" ls toUpperCase nf r l]
    regionLoop_end [of ls "length ls" toUpperCase nf r l]
  by simp

lemma recordFormatName_error: "recordFormatName toUpperCase x = Inl e \<Longrightarrow> e = TypeError"
  by (auto simp: recordFormatName_def split: json.splits option.splits)

lemma filterFormats_error: "filterFormats toUpperCase nf r = Inl e \<Longrightarrow> e = TypeError"
  by (induction nf arbitrary: e) (auto split: sum.splits dest: recordFormatName_error)

lemma filterFormats_no_match:
  "\<forall>x \<in> set nf. recordFormatName toUpperCase x \<noteq> Inr R \<Longrightarrow> filterFormats toUpperCase nf (Some R) = Inr ys \<Longrightarrow> ys = []"
  by (induction nf arbitrary: ys) (auto split: sum.splits if_splits)

lemma renderRegion_no_match:
  assumes "\<forall>x \<in> set nf. recordFormatName toUpperCase x \<noteq> Inr R"
  shows "renderRegion toUpperCase nf (Some R) l = Some (Inl TypeError)"
proof (cases "filterFormats toUpperCase nf (Some R)")
  case (Inl e)
  then show ?thesis
    using filterFormats_error [OF Inl] by (simp add: renderRegion_def)
next
  case (Inr ys)
  then show ?thesis
    using filterFormats_no_match [OF assms Inr]
    by (simp add: renderRegion_def firstOf_def htmlObjToDdsLines_def)
qed

lemma conversionLoop_copy:
  assumes "i < length ls" and "isRcdFmtOpen (ls ! i) \<or> \<not> isHtmlJsonOpen (ls ! i)"
  shows "conversionLoop toUpperCase nf ls r i acc =
           conversionLoop toUpperCase nf ls
             (if isRcdFmtOpen (ls ! i) then Some (toUpperCase (trimRight (substr (ls ! i) 18 10))) else r)
             (Suc i) (acc @ [ls ! i])"
  using assms by (subst conversionLoop.simps) (auto simp: Let_def)

lemma conversionLoop_region:
  assumes "i < length ls" and "\<not> isRcdFmtOpen (ls ! i)" and "isHtmlJsonOpen (ls ! i)"
  shows "conversionLoop toUpperCase nf ls r i acc =
           (case regionLoop toUpperCase nf ls r (ls ! i) i of
              None \<Rightarrow> None
            | Some (Inl e) \<Rightarrow> Some (Inl e)
            | Some (Inr (new, endIdx)) \<Rightarrow> conversionLoop toUpperCase nf ls r (endIdx + 1) (acc @ new))"
  using assms by (subst conversionLoop.simps) (simp add: Let_def)

lemma conversionLoop_end: "length ls \<le> i \<Longrightarrow> conversionLoop toUpperCase nf ls r i acc = Some (Inr acc)"
  by (subst conversionLoop.simps) simp

lemma find_upt_Some:
  "find P [i ..< n] = Some j \<longleftrightarrow> i \<le> j \<and> j < n \<and> P j \<and> (\<forall>k. i \<le> k \<and> k < j \<longrightarrow> \<not> P k)"
proof
  assume "find P [i ..< n] = Some j"
  then obtain m where m: "m < length [i ..< n]" "P ([i ..< n] ! m)" "j = [i ..< n] ! m"
    "\<forall>k<m. \<not> P ([i ..< n] ! k)"
    by (auto simp: find_Some_iff)
  then have j: "j = i + m" "i + m < n" by simp_all
  have "\<not> P k" if "i \<le> k \<and> k < j" for k
  proof -
    from that j have "k - i < m" by linarith
    with m(4) have "\<not> P ([i ..< n] ! (k - i))" by blast
    moreover have "[i ..< n] ! (k - i) = k" using that j by simp
    ultimately show ?thesis by simp
  qed
  with m j show "i \<le> j \<and> j < n \<and> P j \<and> (\<forall>k. i \<le> k \<and> k < j \<longrightarrow> \<not> P k)"
    by simp
next
  assume a: "i \<le> j \<and> j < n \<and> P j \<and> (\<forall>k. i \<le> k \<and> k < j \<longrightarrow> \<not> P k)"
  have "j - i < length [i ..< n] \<and> P ([i ..< n] ! (j - i)) \<and> j = [i ..< n] ! (j - i)
          \<and> (\<forall>k<j - i. \<not> P ([i ..< n] ! k))"
    using a by auto
  then show "find P [i ..< n] = Some j"
    unfolding find_Some_iff by blast
qed

lemma find_upt_None: "find P [i ..< n] = None \<longleftrightarrow> (\<forall>k. i \<le> k \<and> k < n \<longrightarrow> \<not> P k)"
  by (auto simp: find_None_iff)

lemma regionEnd_Some:
  "regionEnd ls i = Some j \<longleftrightarrow>
     i \<le> j \<and> regionStops ls j \<and> (\<forall>k. i \<le> k \<and> k < j \<longrightarrow> \<not> regionStops ls k)"
  unfolding regionEnd_def find_upt_Some by (auto simp: regionStops_def)

lemma regionEnd_None: "regionEnd ls i = None \<longleftrightarrow> (\<forall>k. i \<le> k \<longrightarrow> \<not> regionStops ls k)"
  unfolding regionEnd_def find_upt_None by (auto simp: regionStops_def)

lemma regionLoop_regionEnd:
  assumes "i \<le> length ls"
  shows "regionLoop toUpperCase nf ls r l i =
     (case regionEnd ls i of
        None \<Rightarrow> Some (Inr ([], length ls))
      | Some j \<Rightarrow>
          if j = 0 \<and> j \<noteq> length ls - 1 then Some (Inl TypeError)
          else (case renderRegion toUpperCase nf r l of
                  None \<Rightarrow> None
                | Some (Inl e) \<Rightarrow> Some (Inl e)
                | Some (Inr new) \<Rightarrow> Some (Inr (new, j))))"
proof (cases "regionEnd ls i")
  case None
  then have "\<forall>k. i \<le> k \<longrightarrow> \<not> regionStops ls k"
    by (simp add: regionEnd_None)
  from regionLoop_none [OF this assms] None show ?thesis
    by simp
next
  case (Some j)
  then have j: "i \<le> j" "regionStops ls j" "\<forall>k. i \<le> k \<and> k < j \<longrightarrow> \<not> regionStops ls k"
    by (simp_all add: regionEnd_Some)
  then have jl: "j \<le> length ls"
    by (simp add: regionStops_def)
  have "regionLoop toUpperCase nf ls r l i = regionLoop toUpperCase nf ls r l j"
    by (rule regionLoop_skip [OF j(1) jl j(3)])
  then show ?thesis
    using Some j(2) by (simp add: regionLoop_stop)
qed

lemma prepend_prepend: "prepend a (prepend b res) = prepend (a @ b) res"
  by (auto simp: prepend_def split: option.splits sum.splits)

lemma conversionLoop_merge:
  "conversionLoop toUpperCase nf ls r i acc = prepend acc (mergeAmended toUpperCase nf ls r i)"
proof (induction toUpperCase nf ls r i arbitrary: acc rule: mergeAmended.induct)
  case (1 toUpperCase nf ls r i)
  show ?case
  proof (cases "length ls \<le> i")
    case True
    then show ?thesis
      by (subst mergeAmended.simps) (simp add: conversionLoop_end prepend_def)
  next
    case False
    then have il: "i < length ls" "i \<le> length ls" by simp_all
    show ?thesis
    proof (cases "isRcdFmtOpen (ls ! i)")
      case True
      have "conversionLoop toUpperCase nf ls r i acc =
              conversionLoop toUpperCase nf ls
                (Some (toUpperCase (trimRight (substr (ls ! i) 18 10)))) (Suc i) (acc @ [ls ! i])"
        using conversionLoop_copy [OF il(1), of toUpperCase nf r acc] True by simp
      also have "\<dots> = prepend (acc @ [ls ! i])
              (mergeAmended toUpperCase nf ls
                 (Some (toUpperCase (trimRight (substr (ls ! i) 18 10)))) (Suc i))"
        by (rule "1.IH"(1) [OF False True])
      finally show ?thesis
        using False True by (subst mergeAmended.simps) (simp add: prepend_prepend)
    next
      case h: False
      show ?thesis
      proof (cases "isHtmlJsonOpen (ls ! i)")
        case False
        have "conversionLoop toUpperCase nf ls r i acc =
                conversionLoop toUpperCase nf ls r (Suc i) (acc @ [ls ! i])"
          using conversionLoop_copy [OF il(1), of toUpperCase nf r acc] h False by simp
        also have "\<dots> = prepend (acc @ [ls ! i]) (mergeAmended toUpperCase nf ls r (Suc i))"
          by (rule "1.IH"(2) [OF \<open>\<not> length ls \<le> i\<close> h False])
        finally show ?thesis
          using \<open>\<not> length ls \<le> i\<close> h False
          by (subst mergeAmended.simps) (simp add: prepend_prepend)
      next
        case True
        note reg = conversionLoop_region [OF il(1) h True, of toUpperCase nf r acc]
          regionLoop_regionEnd [OF il(2), of toUpperCase nf r "ls ! i"]
        show ?thesis
        proof (cases "regionEnd ls i")
          case None
          then show ?thesis
            using reg \<open>\<not> length ls \<le> i\<close> h True
            by (subst mergeAmended.simps) (simp add: conversionLoop_end prepend_def)
        next
          case (Some j)
          show ?thesis
          proof (cases "j = 0 \<and> j \<noteq> length ls - 1")
            case t: True
            have "regionLoop toUpperCase nf ls r (ls ! i) i = Some (Inl TypeError)"
              by (simp only: reg(2) Some option.case if_P [OF t])
            then have "conversionLoop toUpperCase nf ls r i acc = Some (Inl TypeError)"
              unfolding reg(1) by simp
            moreover have "mergeAmended toUpperCase nf ls r i = Some (Inl TypeError)"
              by (subst mergeAmended.simps)
                 (simp only: Some option.case if_P [OF t] if_not_P [OF \<open>\<not> length ls \<le> i\<close>]
                    if_not_P [OF h] True not_True_eq_False if_False)
            ultimately show ?thesis
              by (simp add: prepend_def)
          next
            case f: False
            have rl: "regionLoop toUpperCase nf ls r (ls ! i) i =
                (case renderRegion toUpperCase nf r (ls ! i) of
                  None \<Rightarrow> None
                | Some (Inl e) \<Rightarrow> Some (Inl e)
                | Some (Inr new) \<Rightarrow> Some (Inr (new, j)))"
              by (simp only: reg(2) Some option.case if_not_P [OF f])
            have ma: "mergeAmended toUpperCase nf ls r i =
                (case renderRegion toUpperCase nf r (ls ! i) of
                   Some (Inr new) \<Rightarrow> prepend new (mergeAmended toUpperCase nf ls r (Suc j))
                 | other \<Rightarrow> other)"
              by (subst mergeAmended.simps)
                 (simp only: Some option.case if_not_P [OF f] if_not_P [OF \<open>\<not> length ls \<le> i\<close>]
                    if_not_P [OF h] True not_True_eq_False if_False)
            show ?thesis
            proof (cases "renderRegion toUpperCase nf r (ls ! i)")
              case None
              then show ?thesis
                unfolding reg(1) rl ma by (simp add: prepend_def)
            next
              case (Some res)
              note rr = this
              show ?thesis
              proof (cases res)
                case (Inl e)
                then show ?thesis
                  unfolding reg(1) rl ma rr by (simp add: prepend_def)
              next
                case (Inr new)
                have "conversionLoop toUpperCase nf ls r i acc =
                        conversionLoop toUpperCase nf ls r (Suc j) (acc @ new)"
                  unfolding reg(1) rl rr Inr by simp
                also have "\<dots> = prepend (acc @ new) (mergeAmended toUpperCase nf ls r (Suc j))"
                  using "1.IH"(3) [OF \<open>\<not> length ls \<le> i\<close> h _ \<open>regionEnd ls i = Some j\<close> f, of "Inr new" new]
                    True rr Inr by simp
                finally show ?thesis
                  unfolding ma rr Inr by (simp add: prepend_prepend)
              qed
            qed
          qed
        qed
      qed
    qed
  qed
qed

lemma conversionLoop_copies:
  assumes "list_all copiedLine (take n (drop a ls))" and "a + n \<le> length ls"
  shows "conversionLoop toUpperCase nf ls r a acc =
           conversionLoop toUpperCase nf ls (currentName toUpperCase r (take n (drop a ls))) (a + n)
             (acc @ take n (drop a ls))"
  using assms
proof (induction n arbitrary: a r acc)
  case 0
  then show ?case by simp
next
  case (Suc n)
  from Suc.prems(2) have al: "a < length ls" by simp
  then have t: "take (Suc n) (drop a ls) = ls ! a # take n (drop (Suc a) ls)"
    by (simp add: take_Suc_Cons flip: Cons_nth_drop_Suc)
  from Suc.prems(1) t have c: "copiedLine (ls ! a)" "list_all copiedLine (take n (drop (Suc a) ls))"
    by simp_all
  let ?r = "if isRcdFmtOpen (ls ! a) then Some (toUpperCase (trimRight (substr (ls ! a) 18 10))) else r"
  have "conversionLoop toUpperCase nf ls r a acc =
          conversionLoop toUpperCase nf ls ?r (Suc a) (acc @ [ls ! a])"
    using conversionLoop_copy [OF al, of toUpperCase nf r acc] c(1) by (simp add: copiedLine_def)
  also have "\<dots> = conversionLoop toUpperCase nf ls
                      (currentName toUpperCase ?r (take n (drop (Suc a) ls))) (Suc a + n)
                      ((acc @ [ls ! a]) @ take n (drop (Suc a) ls))"
    by (rule Suc.IH [OF c(2)]) (use Suc.prems(2) in simp)
  finally show ?case
    by (simp add: t)
qed

lemma conversionLoop_prefix:
  assumes "list_all copiedLine (take i ls)" and "i \<le> length ls"
  shows "conversionV1 toUpperCase nf ls =
           conversionLoop toUpperCase nf ls (currentName toUpperCase None (take i ls)) i (take i ls)"
  using conversionLoop_copies [of i 0 ls toUpperCase nf None "[]"] assms
  by (simp add: conversionV1_def)

lemma conversionLoop_suffix:
  assumes "list_all copiedLine (drop a ls)"
  shows "conversionLoop toUpperCase nf ls r a acc = Some (Inr (acc @ drop a ls))"
proof (cases "a \<le> length ls")
  case True
  then show ?thesis
    using conversionLoop_copies [of "length ls - a" a ls toUpperCase nf r acc] assms
    by (simp add: conversionLoop_end)
next
  case False
  then show ?thesis by (simp add: conversionLoop_end)
qed

text \<open>
  \<^bold>\<open>C4\<close> as stated fails twice over. The failure is the \<open>TypeError\<close> raised when
  \<open>undefined\<close> is rendered; it is the same value whatever the record format is called and
  carries no name. And the name is compared after upper-casing, so a model whose payload is
  named \<open>RecFmt1\<close> serves the record format \<open>RECFMT1\<close> although no payload name equals it.
\<close>

theorem conversionV1_missing_payload_counterexample:
  "conversionV1 toUpperCaseAscii [] sampleDoc = Some (Inl TypeError)
   \<and> conversionV1 toUpperCaseAscii [] otherDoc = Some (Inl TypeError)
   \<and> recordFormatName toUpperCaseAscii mixedCaseFormat = Inr ''RECFMT1''
   \<and> conversionV1 toUpperCaseAscii [mixedCaseFormat] sampleDoc = Some (Inr mixedCaseDoc)"
  by code_simp

text \<open>
  \<^bold>\<open>C4\<close>, amended: whenever the scan of \<open>conversionV1\<close> stands at a payload-tag-open line
  with current record-format name \<open>R\<close>, the region stops at or behind that line, and no
  payload of the new model has the upper-cased name \<open>R\<close>, the engine fails with a
  \<open>TypeError\<close>; the failure names no record format. In particular \<open>conversionV1\<close> fails so
  when the lines before the tag-open line are all copied and the last header among them
  gives the name \<open>R\<close>.
\<close>

theorem conversionLoop_missing_payload:
  assumes "i < length ls" and "\<not> isRcdFmtOpen (ls ! i)" and "isHtmlJsonOpen (ls ! i)"
    and "i \<le> j" and "regionStops ls j"
    and "\<forall>x \<in> set nf. recordFormatName toUpperCase x \<noteq> Inr R"
  shows "conversionLoop toUpperCase nf ls (Some R) i acc = Some (Inl TypeError)
       \<and> (list_all copiedLine (take i ls) \<and> currentName toUpperCase None (take i ls) = Some R
            \<longrightarrow> conversionV1 toUpperCase nf ls = Some (Inl TypeError))"
proof -
  define m where "m = (LEAST k. i \<le> k \<and> regionStops ls k)"
  have m: "i \<le> m \<and> regionStops ls m"
    unfolding m_def by (rule LeastI [of _ j]) (use assms in simp)
  have least: "\<forall>k. i \<le> k \<and> k < m \<longrightarrow> \<not> regionStops ls k"
    unfolding m_def using not_less_Least by blast
  have ml: "m \<le> length ls"
    using m by (simp add: regionStops_def)
  have "regionLoop toUpperCase nf ls (Some R) (ls ! i) i = regionLoop toUpperCase nf ls (Some R) (ls ! i) m"
    using regionLoop_skip [OF _ ml least] m by simp
  also have "\<dots> = Some (Inl TypeError)"
    using m by (simp add: regionLoop_stop renderRegion_no_match [OF assms(6)])
  finally have 1: "conversionLoop toUpperCase nf ls (Some R) i acc = Some (Inl TypeError)" for acc
    using assms(1-3) by (simp add: conversionLoop_region)
  have 2: "conversionV1 toUpperCase nf ls = Some (Inl TypeError)"
    if "list_all copiedLine (take i ls) \<and> currentName toUpperCase None (take i ls) = Some R"
    using conversionLoop_prefix [of i ls toUpperCase nf] that assms(1) 1 by simp
  from 1 2 show ?thesis by blast
qed

theorem conversionLoop_missing_payload_witness:
  "2 < length sampleDoc \<and> \<not> isRcdFmtOpen (sampleDoc ! 2) \<and> isHtmlJsonOpen (sampleDoc ! 2)
   \<and> regionStops sampleDoc 3
   \<and> recordFormatName toUpperCaseAscii longFormat = Inr ''R''
   \<and> list_all copiedLine (take 2 sampleDoc)
   \<and> currentName toUpperCaseAscii None (take 2 sampleDoc) = Some ''RECFMT1''
   \<and> conversionLoop toUpperCaseAscii [longFormat] sampleDoc (Some ''RECFMT1'') 2 (take 2 sampleDoc)
       = Some (Inl TypeError)
   \<and> conversionV1 toUpperCaseAscii [longFormat] sampleDoc = Some (Inl TypeError)"
proof -
  have h: "2 < length sampleDoc" "\<not> isRcdFmtOpen (sampleDoc ! 2)" "isHtmlJsonOpen (sampleDoc ! 2)"
    "regionStops sampleDoc 3"
    by code_simp+
  have n: "recordFormatName toUpperCaseAscii longFormat = Inr ''R''"
    by (simp add: recordFormatName_def longFormat_def getProp_def toUpperCaseAscii_def upperChar_def)
  then have m: "\<forall>x \<in> set [longFormat]. recordFormatName toUpperCaseAscii x \<noteq> Inr ''RECFMT1''"
    by simp
  have c: "list_all copiedLine (take 2 sampleDoc)"
    "currentName toUpperCaseAscii None (take 2 sampleDoc) = Some ''RECFMT1''"
    by code_simp+
  note T = conversionLoop_missing_payload [OF h(1-3) _ h(4) m, of "take 2 sampleDoc"]
  have f: "conversionLoop toUpperCaseAscii [longFormat] sampleDoc (Some ''RECFMT1'') 2 (take 2 sampleDoc)
             = Some (Inl TypeError)"
    using T by simp
  have g: "conversionV1 toUpperCaseAscii [longFormat] sampleDoc = Some (Inl TypeError)"
    using T c by simp
  from h n c f g show ?thesis by simp
qed

text \<open>
  \<^bold>\<open>C7\<close> as stated fails: the closing line must also carry the form type \<open>A\<close> in column 6
  (and \<open>}')\<close> must be found around it). In \<open>blankTypeDoc\<close> the continuation line has a
  blank form type, which DDS allows; the region then runs on to the next line that passes
  the test, and the field behind the payload is replaced along with it.
\<close>

theorem conversionV1_region_counterexample:
  "conversionV1 toUpperCaseAscii [sampleFormat] blankTypeDoc = Some (Inr sampleDoc)
   \<and> mergeAsSpecified toUpperCaseAscii [sampleFormat] None blankTypeDoc = Some (Inr (sampleDoc @ [blankTypeDoc ! 4]))"
  by code_simp

text \<open>
  \<^bold>\<open>C7\<close>, amended. The lines \<open>conversionV1\<close> returns are those of \<open>mergeAmended\<close>: a line
  that is a record-format header or no payload-tag-open line is copied unchanged; at a
  payload-tag-open line \<open>i\<close> the region replaced by the rendered lines extends exactly to the
  first line \<open>j\<close> at or behind it where \<open>regionStops\<close> holds (columns 6-7 are \<open>A\<close> and blank,
  column 80 is not the continuation character, and the line is the last one or is followed
  by a line without \<open>HTML('\<close> in column 45 while \<open>}')\<close> occurs in the keyword areas of lines
  \<open>j - 1\<close> and \<open>j\<close>), and the merge goes on behind \<open>j\<close>; when no such line exists, the
  tag-open line and everything behind it are dropped and nothing is rendered. For a
  document whose only payload-tag-open line is line \<open>i\<close> this reads: the result is the lines
  before \<open>i\<close>, the rendering, and the lines behind \<open>j\<close>.
\<close>

theorem conversionV1_regions:
  "conversionV1 toUpperCase nf ls = mergeAmended toUpperCase nf ls None 0
   \<and> (regionEnd ls i = Some j \<longleftrightarrow>
        i \<le> j \<and> regionStops ls j \<and> (\<forall>k. i \<le> k \<and> k < j \<longrightarrow> \<not> regionStops ls k))
   \<and> (i < length ls \<and> list_all copiedLine (take i ls) \<and> \<not> copiedLine (ls ! i)
        \<and> regionEnd ls i = Some j \<and> (j \<noteq> 0 \<or> j = length ls - 1)
        \<and> list_all copiedLine (drop (Suc j) ls)
        \<and> renderRegion toUpperCase nf (currentName toUpperCase None (take i ls)) (ls ! i) = Some (Inr new)
      \<longrightarrow> conversionV1 toUpperCase nf ls = Some (Inr (take i ls @ new @ drop (Suc j) ls)))
   \<and> (i < length ls \<and> list_all copiedLine (take i ls) \<and> \<not> copiedLine (ls ! i)
        \<and> regionEnd ls i = None
      \<longrightarrow> conversionV1 toUpperCase nf ls = Some (Inr (take i ls)))"
proof -
  have 1: "conversionV1 toUpperCase nf ls = mergeAmended toUpperCase nf ls None 0"
    using conversionLoop_merge [of toUpperCase nf ls None 0 "[]"]
    by (simp add: conversionV1_def prepend_def split: option.splits sum.splits)
  have 3: "conversionV1 toUpperCase nf ls = Some (Inr (take i ls @ new @ drop (Suc j) ls))"
    if a: "i < length ls \<and> list_all copiedLine (take i ls) \<and> \<not> copiedLine (ls ! i)
        \<and> regionEnd ls i = Some j \<and> (j \<noteq> 0 \<or> j = length ls - 1)
        \<and> list_all copiedLine (drop (Suc j) ls)
        \<and> renderRegion toUpperCase nf (currentName toUpperCase None (take i ls)) (ls ! i) = Some (Inr new)"
  proof -
    let ?r = "currentName toUpperCase None (take i ls)"
    from a have o: "\<not> isRcdFmtOpen (ls ! i)" "isHtmlJsonOpen (ls ! i)"
      by (simp_all add: copiedLine_def)
    have "conversionV1 toUpperCase nf ls = conversionLoop toUpperCase nf ls ?r i (take i ls)"
      using conversionLoop_prefix [of i ls toUpperCase nf] a by simp
    also have "\<dots> = conversionLoop toUpperCase nf ls ?r (Suc j) (take i ls @ new)"
      using conversionLoop_region [of i ls toUpperCase nf ?r "take i ls"] o a
        regionLoop_regionEnd [of i ls toUpperCase nf ?r "ls ! i"]
      by auto
    also have "\<dots> = Some (Inr ((take i ls @ new) @ drop (Suc j) ls))"
      using conversionLoop_suffix [of "Suc j" ls toUpperCase nf ?r "take i ls @ new"] a by blast
    finally show ?thesis by simp
  qed
  have 4: "conversionV1 toUpperCase nf ls = Some (Inr (take i ls))"
    if a: "i < length ls \<and> list_all copiedLine (take i ls) \<and> \<not> copiedLine (ls ! i)
        \<and> regionEnd ls i = None"
  proof -
    let ?r = "currentName toUpperCase None (take i ls)"
    from a have o: "\<not> isRcdFmtOpen (ls ! i)" "isHtmlJsonOpen (ls ! i)"
      by (simp_all add: copiedLine_def)
    have "conversionV1 toUpperCase nf ls = conversionLoop toUpperCase nf ls ?r i (take i ls)"
      using conversionLoop_prefix [of i ls toUpperCase nf] a by simp
    also have "\<dots> = Some (Inr (take i ls))"
      using conversionLoop_region [of i ls toUpperCase nf ?r "take i ls"] o a
        regionLoop_regionEnd [of i ls toUpperCase nf ?r "ls ! i"]
      by (simp add: conversionLoop_end)
    finally show ?thesis .
  qed
  from 1 regionEnd_Some [of ls i j] 3 4 show ?thesis
    by blast
qed

theorem conversionV1_regions_witness:
  "mergeAmended toUpperCaseAscii [sampleFormat] mergeDoc None 0 = Some (Inr (take 5 mergeDoc))
   \<and> conversionV1 toUpperCaseAscii [sampleFormat] mergeDoc = Some (Inr (take 5 mergeDoc))
   \<and> regionEnd (take 5 mergeDoc) 2 = Some 3
   \<and> regionStops (take 5 mergeDoc) 3 \<and> \<not> regionStops (take 5 mergeDoc) 2
   \<and> list_all copiedLine (take 2 (take 5 mergeDoc)) \<and> \<not> copiedLine (take 5 mergeDoc ! 2)
   \<and> list_all copiedLine (drop 4 (take 5 mergeDoc))
   \<and> renderRegion toUpperCaseAscii [sampleFormat]
        (currentName toUpperCaseAscii None (take 2 (take 5 mergeDoc))) (take 5 mergeDoc ! 2)
      = Some (Inr (take 2 (drop 2 mergeDoc)))
   \<and> conversionV1 toUpperCaseAscii [sampleFormat] (take 5 mergeDoc)
      = Some (Inr (take 2 (take 5 mergeDoc) @ take 2 (drop 2 mergeDoc) @ drop 4 (take 5 mergeDoc)))
   \<and> list_all copiedLine (take 2 (take 3 mergeDoc)) \<and> \<not> copiedLine (take 3 mergeDoc ! 2)
   \<and> regionEnd (take 3 mergeDoc) 2 = None
   \<and> conversionV1 toUpperCaseAscii [sampleFormat] (take 3 mergeDoc) = Some (Inr (take 2 (take 3 mergeDoc)))"
proof -
  let ?nf = "[sampleFormat]"
  have m: "mergeAmended toUpperCaseAscii ?nf mergeDoc None 0 = Some (Inr (take 5 mergeDoc))"
    by code_simp
  note T1 = conversionV1_regions [of toUpperCaseAscii ?nf mergeDoc 0 0 "[]"]
  have a: "conversionV1 toUpperCaseAscii ?nf mergeDoc = Some (Inr (take 5 mergeDoc))"
    using T1 [THEN conjunct1] m by simp
  have e: "regionEnd (take 5 mergeDoc) 2 = Some 3"
    "list_all copiedLine (take 2 (take 5 mergeDoc))" "\<not> copiedLine (take 5 mergeDoc ! 2)"
    "list_all copiedLine (drop 4 (take 5 mergeDoc))"
    "renderRegion toUpperCaseAscii ?nf
        (currentName toUpperCaseAscii None (take 2 (take 5 mergeDoc))) (take 5 mergeDoc ! 2)
      = Some (Inr (take 2 (drop 2 mergeDoc)))"
    "2 < length (take 5 mergeDoc)"
    by code_simp+
  note T2 = conversionV1_regions [of toUpperCaseAscii ?nf "take 5 mergeDoc" 2 3 "take 2 (drop 2 mergeDoc)"]
  have s: "regionStops (take 5 mergeDoc) 3" "\<not> regionStops (take 5 mergeDoc) 2"
    using T2 [THEN conjunct2, THEN conjunct1] e(1) by auto
  have b: "conversionV1 toUpperCaseAscii ?nf (take 5 mergeDoc)
      = Some (Inr (take 2 (take 5 mergeDoc) @ take 2 (drop 2 mergeDoc) @ drop 4 (take 5 mergeDoc)))"
    using T2 [THEN conjunct2, THEN conjunct2, THEN conjunct1] e by (simp add: eval_nat_numeral)
  have f: "2 < length (take 3 mergeDoc)" "list_all copiedLine (take 2 (take 3 mergeDoc))"
    "\<not> copiedLine (take 3 mergeDoc ! 2)" "regionEnd (take 3 mergeDoc) 2 = None"
    by code_simp+
  note T3 = conversionV1_regions [of toUpperCaseAscii ?nf "take 3 mergeDoc" 2 0 "[]"]
  have c: "conversionV1 toUpperCaseAscii ?nf (take 3 mergeDoc) = Some (Inr (take 2 (take 3 mergeDoc)))"
    using T3 [THEN conjunct2, THEN conjunct2, THEN conjunct2] f by simp
  from m a e(1-5) s b f(2-4) c show ?thesis
    by simp
qed

section \<open>Properties of the Raw-Text Assembler\<close>

lemma propertyField_set:
  "propertyField toUpperCase v = Inr fs \<Longrightarrow>
     set fs = {toUpperCase s | s. s \<noteq> [] \<and> (\<exists>pkvs. v = JObj pkvs \<and> getProp pkvs ''fieldName'' = Some (JStr s))}"
  by (auto simp: propertyField_def truthy_def split: json.splits option.splits if_splits)

lemma collectFields_set:
  "collectFields toUpperCase vs = Inr fs \<Longrightarrow>
     set fs = {toUpperCase s | s. s \<noteq> [] \<and>
                 (\<exists>pkvs. JObj pkvs \<in> set vs \<and> getProp pkvs ''fieldName'' = Some (JStr s))}"
proof (induction vs arbitrary: fs)
  case Nil
  then show ?case by auto
next
  case (Cons v vs)
  from Cons.prems obtain f g where fg: "propertyField toUpperCase v = Inr f"
    "collectFields toUpperCase vs = Inr g" "fs = f @ g"
    by (auto split: sum.splits)
  show ?case
    unfolding fg(3) using propertyField_set [OF fg(1)] Cons.IH [OF fg(2)]
    by auto
qed

lemma itemsFields_set:
  "itemsFields toUpperCase items = Inr fs \<Longrightarrow>
     set fs = {toUpperCase s | s. s \<noteq> [] \<and>
                 (\<exists>item vs pkvs. item \<in> set items \<and> ownValues item = Inr vs \<and> JObj pkvs \<in> set vs
                    \<and> getProp pkvs ''fieldName'' = Some (JStr s))}"
proof (induction items arbitrary: fs)
  case Nil
  then show ?case by auto
next
  case (Cons item items)
  from Cons.prems obtain vs f g where fg: "ownValues item = Inr vs"
    "collectFields toUpperCase vs = Inr f" "itemsFields toUpperCase items = Inr g" "fs = f @ g"
    by (auto split: sum.splits)
  have "set (f @ g) =
      {toUpperCase s | s. s \<noteq> [] \<and>
         (\<exists>pkvs. JObj pkvs \<in> set vs \<and> getProp pkvs ''fieldName'' = Some (JStr s))}
      \<union> {toUpperCase s | s. s \<noteq> [] \<and>
                 (\<exists>item vs pkvs. item \<in> set items \<and> ownValues item = Inr vs \<and> JObj pkvs \<in> set vs
                    \<and> getProp pkvs ''fieldName'' = Some (JStr s))}"
    using collectFields_set [OF fg(2)] Cons.IH [OF fg(3)] by simp
  also have "\<dots> = {toUpperCase s | s. s \<noteq> [] \<and>
                 (\<exists>it vs pkvs. it \<in> set (item # items) \<and> ownValues it = Inr vs \<and> JObj pkvs \<in> set vs
                    \<and> getProp pkvs ''fieldName'' = Some (JStr s))}"
    using fg(1) by (auto; blast)
  finally show ?case
    unfolding fg(4) .
qed

lemma getBoundFields_set:
  assumes "getBoundFields toUpperCase (Some (JObj kvs)) = Inr fs"
    and "iterate (getProp kvs ''items'') = Inr items"
  shows "set fs = {toUpperCase s | s. s \<noteq> [] \<and>
                 (\<exists>item vs pkvs. item \<in> set items \<and> ownValues item = Inr vs \<and> JObj pkvs \<in> set vs
                    \<and> getProp pkvs ''fieldName'' = Some (JStr s))}"
proof -
  from assms have "itemsFields toUpperCase items = Inr fs"
    by (simp add: getBoundFields_def)
  from itemsFields_set [OF this] show ?thesis .
qed

lemma keepLine_echoed:
  "keepLine st line =
     (if echoed (boundFields st) line then st\<lparr>returnDds := returnDds st @ [cleanLine line]\<rparr> else st)"
  by (cases "boundFields st") (auto simp: keepLine_def echoed_def)

lemma atHeader_context:
  "atHeader toUpperCase fmts st line =
     (case headerContext toUpperCase fmts (isSFL st, rcdFmtObj st, boundFields st) line of
        Inl e \<Rightarrow> Inl e
      | Inr (s, os, b) \<Rightarrow> Inr (st\<lparr>isSFL := s, rcdFmtObj := os, boundFields := b\<rparr>))"
  by (auto simp: atHeader_def headerContext_def isRcdFmtOpen_def split: sum.splits)

lemma skipControl_find:
  "i \<le> length ls \<Longrightarrow>
     skipControl ls i =
       (case find (\<lambda>k. substr (ls ! k) 79 1 \<noteq> ''-'') [i ..< length ls] of
          None \<Rightarrow> Inl TypeError
        | Some k \<Rightarrow> Inr k)"
proof (induction "length ls - i" arbitrary: i rule: less_induct)
  case less
  show ?case
  proof (cases "i < length ls")
    case False
    with less.prems show ?thesis
      by (subst skipControl.simps) simp
  next
    case True
    then have u: "[i ..< length ls] = i # [Suc i ..< length ls]"
      by (simp add: upt_conv_Cons)
    show ?thesis
    proof (cases "substr (ls ! i) 79 1 = ''-''")
      case c: True
      have "skipControl ls i = skipControl ls (Suc i)"
        using True c by (subst skipControl.simps) simp
      also have "\<dots> = (case find (\<lambda>k. substr (ls ! k) 79 1 \<noteq> ''-'') [Suc i ..< length ls] of
          None \<Rightarrow> Inl TypeError
        | Some k \<Rightarrow> Inr k)"
        by (rule less.hyps) (use True in simp_all)
      finally show ?thesis
        using c by (simp add: u)
    next
      case c: False
      then show ?thesis
        using True by (subst skipControl.simps) (simp add: u)
    qed
  qed
qed

lemma screenLoop_stop:
  assumes "regionStops ls i"
  shows "screenLoop toUpperCase ls objs bf i =
     (if i = 0 \<or> i = length ls - 1 then Inl TypeError
      else (case objs of
              None \<Rightarrow> Inl TypeError
            | Some os \<Rightarrow>
                (case getBoundFields toUpperCase (firstOf os) of
                   Inl e \<Rightarrow> Inl e
                 | Inr b \<Rightarrow> Inr (Some b, i))))"
proof -
  from assms have il: "i < length ls"
    by (simp add: regionStops_def)
  show ?thesis
  proof (cases "i = length ls - 1")
    case True
    with il have "\<not> i + 1 < length ls" by simp
    with assms il True show ?thesis
      by (subst screenLoop.simps) (simp add: regionStops_def)
  next
    case False
    with il have n: "i + 1 < length ls" by simp
    show ?thesis
    proof (cases "i = 0")
      case True
      with assms il n False show ?thesis
        by (subst screenLoop.simps) (auto simp: regionStops_def)
    next
      case z: False
      with assms il n False show ?thesis
        by (subst screenLoop.simps)
           (auto simp: regionStops_def Let_def split: option.splits sum.splits)
    qed
  qed
qed

lemma screenLoop_step:
  assumes "i < length ls" and "\<not> regionStops ls i"
  shows "screenLoop toUpperCase ls objs bf i = screenLoop toUpperCase ls objs bf (Suc i)"
proof (cases "i + 1 < length ls")
  case True
  with assms show ?thesis
    by (subst screenLoop.simps) (auto simp: regionStops_def Let_def)
next
  case False
  with assms have "i = length ls - 1" by simp
  with assms False show ?thesis
    by (subst screenLoop.simps) (auto simp: regionStops_def Let_def)
qed

lemma screenLoop_regionEnd:
  "i \<le> length ls \<Longrightarrow>
     screenLoop toUpperCase ls objs bf i =
       (case regionEnd ls i of
          None \<Rightarrow> Inr (bf, length ls)
        | Some j \<Rightarrow>
            if j = 0 \<or> j = length ls - 1 then Inl TypeError
            else (case objs of
                    None \<Rightarrow> Inl TypeError
                  | Some os \<Rightarrow>
                      (case getBoundFields toUpperCase (firstOf os) of
                         Inl e \<Rightarrow> Inl e
                       | Inr b \<Rightarrow> Inr (Some b, j))))"
proof (induction "length ls - i" arbitrary: i rule: less_induct)
  case less
  show ?case
  proof (cases "i < length ls")
    case False
    with less.prems show ?thesis
      by (subst screenLoop.simps) (simp add: regionEnd_def)
  next
    case True
    then have u: "[i ..< length ls] = i # [Suc i ..< length ls]"
      by (simp add: upt_conv_Cons)
    show ?thesis
    proof (cases "regionStops ls i")
      case s: True
      then have "regionEnd ls i = Some i"
        by (simp add: regionEnd_def u)
      then show ?thesis
        by (simp only: screenLoop_stop [OF s] option.case)
    next
      case s: False
      then have e: "regionEnd ls i = regionEnd ls (Suc i)"
        by (simp add: regionEnd_def u)
      have "screenLoop toUpperCase ls objs bf i = screenLoop toUpperCase ls objs bf (Suc i)"
        by (rule screenLoop_step [OF True s])
      also have "\<dots> = (case regionEnd ls (Suc i) of
          None \<Rightarrow> Inr (bf, length ls)
        | Some j \<Rightarrow>
            if j = 0 \<or> j = length ls - 1 then Inl TypeError
            else (case objs of
                    None \<Rightarrow> Inl TypeError
                  | Some os \<Rightarrow>
                      (case getBoundFields toUpperCase (firstOf os) of
                         Inl e \<Rightarrow> Inl e
                       | Inr b \<Rightarrow> Inr (Some b, j))))"
        by (rule less.hyps) (use True in simp_all)
      finally show ?thesis
        by (simp only: e)
    qed
  qed
qed

lemma ddsLoop_end: "length ls \<le> i \<Longrightarrow> ddsLoop toUpperCase fmts ls st i = Inr (returnDds st)"
  by (subst ddsLoop.simps) simp

lemma ddsLoop_step:
  "i < length ls \<Longrightarrow>
     ddsLoop toUpperCase fmts ls st i =
       (case atHeader toUpperCase fmts st (ls ! i) of
          Inl e \<Rightarrow> Inl e
        | Inr st1 \<Rightarrow>
            if isControlOpen (ls ! i) then
              (case skipControl ls i of
                 Inl e \<Rightarrow> Inl e
               | Inr k \<Rightarrow> ddsLoop toUpperCase fmts ls st1 (Suc k))
            else if \<not> isSFL st1 \<and> isHtmlJsonOpen (ls ! i) then
              (case screenLoop toUpperCase ls (rcdFmtObj st1) (boundFields st1) i of
                 Inl e \<Rightarrow> Inl e
               | Inr (bound, j) \<Rightarrow> ddsLoop toUpperCase fmts ls (st1\<lparr>boundFields := bound\<rparr>) (Suc j))
            else ddsLoop toUpperCase fmts ls (keepLine st1 (ls ! i)) (Suc i))"
  by (subst ddsLoop.simps)
     (simp add: Let_def isControlOpen_def isHtmlJsonOpen_def split: sum.splits)

lemma ddsLoop_echo:
  "ddsLoop toUpperCase fmts ls st i =
     returned (returnDds st) (echoAmended toUpperCase fmts ls (isSFL st, rcdFmtObj st, boundFields st) i)"
proof (induction "length ls - i" arbitrary: i st rule: less_induct)
  case less
  let ?c = "(isSFL st, rcdFmtObj st, boundFields st)"
  show ?case
  proof (cases "length ls \<le> i")
    case True
    then show ?thesis
      by (subst echoAmended.simps) (simp add: ddsLoop_end returned_def)
  next
    case False
    then have il: "i < length ls" "i \<le> length ls" by simp_all
    show ?thesis
    proof (cases "headerContext toUpperCase fmts ?c (ls ! i)")
      case (Inl e)
      then have "ddsLoop toUpperCase fmts ls st i = Inl e"
        by (simp add: ddsLoop_step [OF il(1)] atHeader_context)
      moreover have "echoAmended toUpperCase fmts ls ?c i = Inl e"
        using False Inl by (subst echoAmended.simps) simp
      ultimately show ?thesis
        by (simp add: returned_def)
    next
      case (Inr c1)
      obtain sfl objs bound where c1: "c1 = (sfl, objs, bound)"
        by (cases c1) auto
      let ?st1 = "st\<lparr>isSFL := sfl, rcdFmtObj := objs, boundFields := bound\<rparr>"
      have h: "atHeader toUpperCase fmts st (ls ! i) = Inr ?st1"
        using Inr c1 by (simp add: atHeader_context)
      have d: "ddsLoop toUpperCase fmts ls st i =
         (if isControlOpen (ls ! i) then
            (case skipControl ls i of
               Inl e \<Rightarrow> Inl e
             | Inr k \<Rightarrow> ddsLoop toUpperCase fmts ls ?st1 (Suc k))
          else if \<not> sfl \<and> isHtmlJsonOpen (ls ! i) then
            (case screenLoop toUpperCase ls objs bound i of
               Inl e \<Rightarrow> Inl e
             | Inr (b, j) \<Rightarrow> ddsLoop toUpperCase fmts ls (?st1\<lparr>boundFields := b\<rparr>) (Suc j))
          else ddsLoop toUpperCase fmts ls (keepLine ?st1 (ls ! i)) (Suc i))"
        using ddsLoop_step [OF il(1), of toUpperCase fmts st] h by simp
      have e: "echoAmended toUpperCase fmts ls ?c i =
         (if isControlOpen (ls ! i) then
               (case find (\<lambda>k. substr (ls ! k) 79 1 \<noteq> ''-'') [i ..< length ls] of
                  None \<Rightarrow> Inl TypeError
                | Some k \<Rightarrow> echoAmended toUpperCase fmts ls (sfl, objs, bound) (Suc k))
             else if \<not> sfl \<and> isHtmlJsonOpen (ls ! i) then
               (case regionEnd ls i of
                  None \<Rightarrow> Inr []
                | Some j \<Rightarrow>
                    if j = 0 \<or> j = length ls - 1 then Inl TypeError
                    else
                      (case objs of
                         None \<Rightarrow> Inl TypeError
                       | Some os \<Rightarrow>
                           (case getBoundFields toUpperCase (firstOf os) of
                              Inl e \<Rightarrow> Inl e
                            | Inr b \<Rightarrow> echoAmended toUpperCase fmts ls (sfl, objs, Some b) (Suc j))))
             else
               (case echoAmended toUpperCase fmts ls (sfl, objs, bound) (Suc i) of
                  Inl e \<Rightarrow> Inl e
                | Inr out \<Rightarrow>
                    Inr ((if echoed bound (ls ! i) then [cleanLine (ls ! i)] else []) @ out)))"
        using False Inr c1 by (subst echoAmended.simps) simp
      show ?thesis
      proof (cases "isControlOpen (ls ! i)")
        case True
        show ?thesis
        proof (cases "find (\<lambda>k. substr (ls ! k) 79 1 \<noteq> ''-'') [i ..< length ls]")
          case None
          then show ?thesis
            using True by (simp add: d e skipControl_find [OF il(2)] returned_def)
        next
          case (Some k)
          then have "i \<le> k" "k < length ls"
            by (simp_all add: find_upt_Some)
          then have "ddsLoop toUpperCase fmts ls ?st1 (Suc k) =
              returned (returnDds ?st1)
                (echoAmended toUpperCase fmts ls (isSFL ?st1, rcdFmtObj ?st1, boundFields ?st1) (Suc k))"
            by (intro less.hyps) simp
          then show ?thesis
            using True Some by (simp add: d e skipControl_find [OF il(2)])
        qed
      next
        case nc: False
        show ?thesis
        proof (cases "\<not> sfl \<and> isHtmlJsonOpen (ls ! i)")
          case True
          note sl = screenLoop_regionEnd [OF il(2), of toUpperCase objs bound]
          show ?thesis
          proof (cases "regionEnd ls i")
            case None
            then show ?thesis
              using True nc by (simp add: d e sl ddsLoop_end returned_def)
          next
            case (Some j)
            then have j: "i \<le> j" "j < length ls"
              by (simp_all add: regionEnd_Some regionStops_def)
            show ?thesis
            proof (cases "j = 0 \<or> j = length ls - 1")
              case t: True
              have "screenLoop toUpperCase ls objs bound i = Inl TypeError"
                by (simp only: sl Some option.case if_P [OF t])
              moreover have "echoAmended toUpperCase fmts ls ?c i = Inl TypeError"
                by (simp only: e if_not_P [OF nc] if_P [OF True] Some option.case if_P [OF t])
              ultimately show ?thesis
                using True nc by (simp add: d returned_def)
            next
              case f: False
              have s1: "screenLoop toUpperCase ls objs bound i =
                  (case objs of
                    None \<Rightarrow> Inl TypeError
                  | Some os \<Rightarrow>
                      (case getBoundFields toUpperCase (firstOf os) of
                         Inl e \<Rightarrow> Inl e
                       | Inr b \<Rightarrow> Inr (Some b, j)))"
                by (simp only: sl Some option.case if_not_P [OF f])
              have e1: "echoAmended toUpperCase fmts ls ?c i =
                  (case objs of
                         None \<Rightarrow> Inl TypeError
                       | Some os \<Rightarrow>
                           (case getBoundFields toUpperCase (firstOf os) of
                              Inl e \<Rightarrow> Inl e
                            | Inr b \<Rightarrow> echoAmended toUpperCase fmts ls (sfl, objs, Some b) (Suc j)))"
                by (simp only: e if_not_P [OF nc] if_P [OF True] Some option.case if_not_P [OF f])
              have ih: "ddsLoop toUpperCase fmts ls (?st1\<lparr>boundFields := Some b\<rparr>) (Suc j) =
                  returned (returnDds st) (echoAmended toUpperCase fmts ls (sfl, objs, Some b) (Suc j))" for b
                using less.hyps [of "Suc j" "?st1\<lparr>boundFields := Some b\<rparr>"] j il by simp
              show ?thesis
              proof (cases objs)
                case None
                then show ?thesis
                  using True nc s1 e1 by (simp add: d returned_def)
              next
                case os: (Some os)
                show ?thesis
                proof (cases "getBoundFields toUpperCase (firstOf os)")
                  case (Inl err)
                  then show ?thesis
                    using True nc os s1 e1 by (simp add: d returned_def)
                next
                  case (Inr b)
                  have "ddsLoop toUpperCase fmts ls st i =
                      ddsLoop toUpperCase fmts ls (?st1\<lparr>boundFields := Some b\<rparr>) (Suc j)"
                    using True nc os Inr s1 by (simp add: d)
                  also note ih [of b]
                  finally show ?thesis
                    using os Inr e1 by simp
                qed
              qed
            qed
          qed
        next
          case False
          have ih: "ddsLoop toUpperCase fmts ls (keepLine ?st1 (ls ! i)) (Suc i) =
              returned (returnDds (keepLine ?st1 (ls ! i)))
                (echoAmended toUpperCase fmts ls (sfl, objs, bound) (Suc i))"
            using less.hyps [of "Suc i" "keepLine ?st1 (ls ! i)"] il
            by (simp add: keepLine_echoed)
          have d1: "ddsLoop toUpperCase fmts ls st i =
              ddsLoop toUpperCase fmts ls (keepLine ?st1 (ls ! i)) (Suc i)"
            by (simp only: d if_not_P [OF nc] if_not_P [OF False])
          have e1: "echoAmended toUpperCase fmts ls ?c i =
              (case echoAmended toUpperCase fmts ls (sfl, objs, bound) (Suc i) of
                  Inl e \<Rightarrow> Inl e
                | Inr out \<Rightarrow>
                    Inr ((if echoed bound (ls ! i) then [cleanLine (ls ! i)] else []) @ out))"
            by (simp only: e if_not_P [OF nc] if_not_P [OF False])
          show ?thesis
            unfolding d1 ih e1
            by (simp add: keepLine_echoed returned_def split: sum.splits)
        qed
      qed
    qed
  qed
qed

lemma contextOf_no_header:
  "list_all (\<lambda>l. \<not> isRcdFmtOpen l) xs \<Longrightarrow> contextOf toUpperCase fmts c xs = Inr c"
  by (induction xs) (simp_all add: headerContext_def)

lemma headerContext_bound:
  "headerContext toUpperCase fmts (sfl, objs, bound) l = Inr (sfl1, objs1, bound1)
     \<Longrightarrow> bound = None \<or> \<not> isRcdFmtOpen l \<Longrightarrow> bound1 = bound"
  by (auto simp: headerContext_def split: if_splits sum.splits)

lemma returned_returned: "returned a (returned b res) = returned (a @ b) res"
  by (auto simp: returned_def split: sum.splits)

lemma echoAmended_plain:
  assumes "list_all plainLine (take n (drop a ls))" and "a + n \<le> length ls"
    and "contextOf toUpperCase fmts (sfl, objs, bound) (take n (drop a ls)) = Inr c'"
    and "bound = None \<or> list_all (\<lambda>l. \<not> isRcdFmtOpen l) (take n (drop a ls))"
  shows "echoAmended toUpperCase fmts ls (sfl, objs, bound) a =
           returned (map cleanLine (filter (echoed bound) (take n (drop a ls))))
             (echoAmended toUpperCase fmts ls c' (a + n))"
  using assms
proof (induction n arbitrary: a sfl objs)
  case 0
  then show ?case by (simp add: returned_def split: sum.splits)
next
  case (Suc n)
  from Suc.prems(2) have al: "a < length ls" by simp
  then have t: "take (Suc n) (drop a ls) = ls ! a # take n (drop (Suc a) ls)"
    by (simp add: take_Suc_Cons flip: Cons_nth_drop_Suc)
  from Suc.prems(3) t obtain c1 where c1: "headerContext toUpperCase fmts (sfl, objs, bound) (ls ! a) = Inr c1"
    "contextOf toUpperCase fmts c1 (take n (drop (Suc a) ls)) = Inr c'"
    by (auto split: sum.splits)
  obtain sfl1 objs1 bound1 where c1': "c1 = (sfl1, objs1, bound1)"
    by (cases c1) auto
  from Suc.prems(4) t have b0: "bound = None \<or> \<not> isRcdFmtOpen (ls ! a)"
    "bound = None \<or> list_all (\<lambda>l. \<not> isRcdFmtOpen l) (take n (drop (Suc a) ls))"
    by auto
  have b1: "bound1 = bound"
    using headerContext_bound [OF c1(1) [unfolded c1'] b0(1)] .
  from Suc.prems(1) t have p0: "plainLine (ls ! a)" "list_all plainLine (take n (drop (Suc a) ls))"
    by simp_all
  then have p: "\<not> isControlOpen (ls ! a)" "\<not> isHtmlJsonOpen (ls ! a)"
    "list_all plainLine (take n (drop (Suc a) ls))"
    by (simp_all add: plainLine_def)
  have ih: "echoAmended toUpperCase fmts ls (sfl1, objs1, bound) (Suc a) =
           returned (map cleanLine (filter (echoed bound) (take n (drop (Suc a) ls))))
             (echoAmended toUpperCase fmts ls c' (Suc a + n))"
    by (rule Suc.IH [OF p(3)]) (use Suc.prems(2) c1(2) c1' b1 b0(2) in simp_all)
  have "echoAmended toUpperCase fmts ls (sfl, objs, bound) a =
          (case echoAmended toUpperCase fmts ls (sfl1, objs1, bound) (Suc a) of
             Inl e \<Rightarrow> Inl e
           | Inr out \<Rightarrow> Inr ((if echoed bound (ls ! a) then [cleanLine (ls ! a)] else []) @ out))"
    using al c1(1) c1' b1 p(1,2) by (subst echoAmended.simps) simp
  also have "\<dots> = returned (if echoed bound (ls ! a) then [cleanLine (ls ! a)] else [])
                      (echoAmended toUpperCase fmts ls (sfl1, objs1, bound) (Suc a))"
    by (simp add: returned_def)
  finally show ?case
    unfolding ih returned_returned t by simp
qed

lemma payload_not_control: "isHtmlJsonOpen l \<Longrightarrow> \<not> isControlOpen l"
proof
  assume a: "isHtmlJsonOpen l" and b: "isControlOpen l"
  have "take 7 (substr l 44 10) = substr l 44 7"
    using substr_nat [of l 44 10] substr_nat [of l 44 7] by simp
  with a b show False
    by (simp add: isHtmlJsonOpen_def isControlOpen_def htmlTagOpen_def)
qed

lemma getDdsFromSrc_one_region:
  assumes "getFormatsFromSrc parse ls = Inr fmts" and "i < length ls"
    and "list_all plainLine (take i ls)"
    and "contextOf toUpperCase fmts (False, None, None) (take i ls) = Inr (False, Some os, None)"
    and "\<not> isRcdFmtOpen (ls ! i)" and "isHtmlJsonOpen (ls ! i)"
    and "regionEnd ls i = Some j" and "j \<noteq> length ls - 1"
    and "getBoundFields toUpperCase (firstOf os) = Inr b"
    and "list_all (\<lambda>l. plainLine l \<and> \<not> isRcdFmtOpen l) (drop (Suc j) ls)"
  shows "getDdsFromSrc parse toUpperCase ls =
           Inr (map cleanLine (filter (echoed None) (take i ls))
                @ map cleanLine (filter (echoed (Some b)) (drop (Suc j) ls)))"
proof -
  let ?c = "(False, Some os, None :: string list option)"
  have i0: "i \<noteq> 0"
  proof
    assume "i = 0"
    with assms(4) show False by simp
  qed
  from assms(7) have j: "i \<le> j" "j < length ls"
    by (simp_all add: regionEnd_Some regionStops_def)
  with i0 have j0: "j \<noteq> 0" "j \<noteq> length ls - 1"
    using assms(8) by simp_all
  have 1: "echoAmended toUpperCase fmts ls (False, None, None) 0 =
      returned (map cleanLine (filter (echoed None) (take i ls))) (echoAmended toUpperCase fmts ls ?c i)"
    using echoAmended_plain [of i 0 ls toUpperCase fmts False None None ?c] assms(2,3,4)
    by simp
  have 2: "echoAmended toUpperCase fmts ls ?c i =
      echoAmended toUpperCase fmts ls (False, Some os, Some b) (Suc j)"
    using assms(2,5,6,7,9) payload_not_control [OF assms(6)] j0
    by (subst echoAmended.simps) (simp add: headerContext_def)
  have pl: "list_all plainLine (drop (Suc j) ls)" "list_all (\<lambda>l. \<not> isRcdFmtOpen l) (drop (Suc j) ls)"
    using assms(10) by (simp_all add: list_all_iff)
  have 3: "echoAmended toUpperCase fmts ls (False, Some os, Some b) (Suc j) =
      returned (map cleanLine (filter (echoed (Some b)) (drop (Suc j) ls)))
        (echoAmended toUpperCase fmts ls (False, Some os, Some b) (length ls))"
  proof -
    have n: "Suc j + (length ls - Suc j) = length ls"
      using j by simp
    have t: "take (length ls - Suc j) (drop (Suc j) ls) = drop (Suc j) ls"
      by simp
    show ?thesis
      by (rule echoAmended_plain [of "length ls - Suc j" "Suc j" ls toUpperCase fmts False "Some os"
            "Some b" "(False, Some os, Some b)", unfolded n t])
         (use pl contextOf_no_header [OF pl(2)] in simp_all)
  qed
  have 4: "echoAmended toUpperCase fmts ls (False, Some os, Some b) (length ls) = Inr []"
    by (subst echoAmended.simps) simp
  show ?thesis
    using assms(1) by (simp add: getDdsFromSrc_def ddsLoop_echo ddsStart_def 1 2 3 4 returned_def)
qed

text \<open>
  \<^bold>\<open>C8\<close> as stated fails in both halves. \<open>getBoundFields\<close> looks at the properties of the
  elements of \<open>items\<close> and no deeper: the \<open>fieldName\<close> inside the grid column of
  \<open>nestedFormat\<close> is not collected. And a hidden field is only dropped once the bound fields
  are known, behind the payload region: in \<open>boundDoc\<close> the hidden, bound field \<open>FLD1\<close> stands
  before the payload and is echoed, while \<open>FLD2\<close> behind it is dropped.
\<close>

theorem getDdsFromSrc_bound_fields_counterexample:
  "getBoundFields toUpperCaseAscii (Some nestedFormat) = Inr [] \<and> allFieldNames toUpperCaseAscii nestedFormat = [''FLD1'']
   \<and> getBoundFields toUpperCaseAscii (Some boundFormat) = Inr [''FLD1'', ''FLD2'']
   \<and> substr (boundDoc ! 1) 37 1 = ''H'' \<and> trimRight (substr (boundDoc ! 1) 18 10) = ''FLD1''
   \<and> getDdsFromSrc JSON_parse toUpperCaseAscii boundDoc = Inr [boundDoc ! 0, boundDoc ! 1, boundDoc ! 8, boundDoc ! 9]"
  by code_simp

text \<open>
  \<^bold>\<open>C8\<close>, amended, in three parts. The bound fields of a payload are the upper-cased,
  non-empty \<open>fieldName\<close> strings of the object-valued properties of the elements of its
  \<open>items\<close> (one level, not the whole tree). The echo \<open>getDdsFromSrc\<close> returns is that of
  \<open>echoAmended\<close>: a line that is neither skipped as part of a control tag or payload region
  is left out exactly when it is empty, is a generated annotation (\<open>A*%%\<close>), or the bound
  fields of the current record format are known and the line has \<open>A\<close> and a blank in
  columns 6-7, \<open>H\<close> in column 38 and its right-trimmed name among them; the bound fields are
  forgotten at every header and become known where the payload region of the record format
  stops before the last line. For a document with one payload region this reads: the lines
  before the region are echoed whether hidden and bound or not, and of the lines behind it
  the hidden bound fields are dropped.
\<close>

theorem getDdsFromSrc_bound_fields:
  "(getBoundFields toUpperCase (Some (JObj kvs)) = Inr fs \<and> iterate (getProp kvs ''items'') = Inr items
      \<longrightarrow> set fs = {toUpperCase s | s. s \<noteq> [] \<and>
                 (\<exists>item vs pkvs. item \<in> set items \<and> ownValues item = Inr vs \<and> JObj pkvs \<in> set vs
                    \<and> getProp pkvs ''fieldName'' = Some (JStr s))})
   \<and> getDdsFromSrc parse toUpperCase ls =
       (case getFormatsFromSrc parse ls of
          Inl e \<Rightarrow> Inl e
        | Inr fmts \<Rightarrow> echoAmended toUpperCase fmts ls (False, None, None) 0)
   \<and> (getFormatsFromSrc parse ls = Inr fmts \<and> i < length ls
        \<and> list_all plainLine (take i ls)
        \<and> contextOf toUpperCase fmts (False, None, None) (take i ls) = Inr (False, Some os, None)
        \<and> \<not> isRcdFmtOpen (ls ! i) \<and> isHtmlJsonOpen (ls ! i)
        \<and> regionEnd ls i = Some j \<and> j \<noteq> length ls - 1
        \<and> getBoundFields toUpperCase (firstOf os) = Inr b
        \<and> list_all (\<lambda>l. plainLine l \<and> \<not> isRcdFmtOpen l) (drop (Suc j) ls)
      \<longrightarrow> getDdsFromSrc parse toUpperCase ls =
            Inr (map cleanLine (filter (echoed None) (take i ls))
                 @ map cleanLine (filter (echoed (Some b)) (drop (Suc j) ls))))"
proof -
  have 1: "getBoundFields toUpperCase (Some (JObj kvs)) = Inr fs \<and> iterate (getProp kvs ''items'') = Inr items
      \<longrightarrow> set fs = {toUpperCase s | s. s \<noteq> [] \<and>
                 (\<exists>item vs pkvs. item \<in> set items \<and> ownValues item = Inr vs \<and> JObj pkvs \<in> set vs
                    \<and> getProp pkvs ''fieldName'' = Some (JStr s))}"
    using getBoundFields_set by blast
  have 2: "getDdsFromSrc parse toUpperCase ls =
       (case getFormatsFromSrc parse ls of
          Inl e \<Rightarrow> Inl e
        | Inr fmts \<Rightarrow> echoAmended toUpperCase fmts ls (False, None, None) 0)"
    by (simp add: getDdsFromSrc_def ddsLoop_echo ddsStart_def returned_def split: sum.splits)
  have 3: "getFormatsFromSrc parse ls = Inr fmts \<and> i < length ls
        \<and> list_all plainLine (take i ls)
        \<and> contextOf toUpperCase fmts (False, None, None) (take i ls) = Inr (False, Some os, None)
        \<and> \<not> isRcdFmtOpen (ls ! i) \<and> isHtmlJsonOpen (ls ! i)
        \<and> regionEnd ls i = Some j \<and> j \<noteq> length ls - 1
        \<and> getBoundFields toUpperCase (firstOf os) = Inr b
        \<and> list_all (\<lambda>l. plainLine l \<and> \<not> isRcdFmtOpen l) (drop (Suc j) ls)
      \<longrightarrow> getDdsFromSrc parse toUpperCase ls =
            Inr (map cleanLine (filter (echoed None) (take i ls))
                 @ map cleanLine (filter (echoed (Some b)) (drop (Suc j) ls)))"
    using getDdsFromSrc_one_region by blast
  show ?thesis
    by (intro conjI) (rule 1, rule 2, rule 3)
qed

theorem getDdsFromSrc_bound_fields_witness:
  "getBoundFields toUpperCaseAscii (Some boundFormat) = Inr [''FLD1'', ''FLD2'']
   \<and> set [''FLD1'', ''FLD2''] =
       {toUpperCaseAscii s | s. s \<noteq> [] \<and>
          (\<exists>item vs pkvs. item \<in> set [JObj [(''id'', JStr ''Out1''), (''value'', JObj [(''fieldName'', JStr ''fld1'')])],
                                     JObj [(''id'', JStr ''Out2''), (''value'', JObj [(''fieldName'', JStr ''Fld2'')])]]
             \<and> ownValues item = Inr vs \<and> JObj pkvs \<in> set vs \<and> getProp pkvs ''fieldName'' = Some (JStr s))}
   \<and> getFormatsFromSrc JSON_parse boundDoc = Inr [boundFormat]
   \<and> echoAmended toUpperCaseAscii [boundFormat] boundDoc (False, None, None) 0
       = Inr [boundDoc ! 0, boundDoc ! 1, boundDoc ! 8, boundDoc ! 9]
   \<and> list_all plainLine (take 2 boundDoc)
   \<and> contextOf toUpperCaseAscii [boundFormat] (False, None, None) (take 2 boundDoc)
       = Inr (False, Some [boundFormat], None)
   \<and> \<not> isRcdFmtOpen (boundDoc ! 2) \<and> isHtmlJsonOpen (boundDoc ! 2)
   \<and> regionEnd boundDoc 2 = Some 6
   \<and> list_all (\<lambda>l. plainLine l \<and> \<not> isRcdFmtOpen l) (drop 7 boundDoc)
   \<and> map cleanLine (filter (echoed None) (take 2 boundDoc)) = [boundDoc ! 0, boundDoc ! 1]
   \<and> map cleanLine (filter (echoed (Some [''FLD1'', ''FLD2''])) (drop 7 boundDoc))
       = [boundDoc ! 8, boundDoc ! 9]
   \<and> getDdsFromSrc JSON_parse toUpperCaseAscii boundDoc
       = Inr [boundDoc ! 0, boundDoc ! 1, boundDoc ! 8, boundDoc ! 9]"
proof -
  let ?items = "[JObj [(''id'', JStr ''Out1''), (''value'', JObj [(''fieldName'', JStr ''fld1'')])],
                 JObj [(''id'', JStr ''Out2''), (''value'', JObj [(''fieldName'', JStr ''Fld2'')])]]"
  let ?kvs = "[(''screen'', JObj [(''record format name'', JStr ''RECFMT1'')]), (''items'', JArr ?items)]"
  note T = getDdsFromSrc_bound_fields [where kvs = ?kvs and fs = "[''FLD1'', ''FLD2'']"
      and items = ?items and toUpperCase = toUpperCaseAscii and parse = JSON_parse
      and ls = boundDoc and fmts = "[boundFormat]" and i = 2 and j = 6 and os = "[boundFormat]"
      and b = "[''FLD1'', ''FLD2'']"]
  have bf: "boundFormat = JObj ?kvs"
    by (simp add: boundFormat_def)
  have g: "getBoundFields toUpperCaseAscii (Some (JObj ?kvs)) = Inr [''FLD1'', ''FLD2'']"
    "iterate (getProp ?kvs ''items'') = Inr ?items"
    by code_simp+
  have A: "set [''FLD1'', ''FLD2''] =
       {toUpperCaseAscii s | s. s \<noteq> [] \<and>
          (\<exists>item vs pkvs. item \<in> set ?items
             \<and> ownValues item = Inr vs \<and> JObj pkvs \<in> set vs \<and> getProp pkvs ''fieldName'' = Some (JStr s))}"
    using T [THEN conjunct1] g by blast
  have p: "getFormatsFromSrc JSON_parse boundDoc = Inr [boundFormat]"
    by code_simp
  have e: "echoAmended toUpperCaseAscii [boundFormat] boundDoc (False, None, None) 0
       = Inr [boundDoc ! 0, boundDoc ! 1, boundDoc ! 8, boundDoc ! 9]"
    by code_simp
  have B: "getDdsFromSrc JSON_parse toUpperCaseAscii boundDoc
       = Inr [boundDoc ! 0, boundDoc ! 1, boundDoc ! 8, boundDoc ! 9]"
    using T [THEN conjunct2, THEN conjunct1] p e by simp
  have h: "2 < length boundDoc" "list_all plainLine (take 2 boundDoc)"
    "contextOf toUpperCaseAscii [boundFormat] (False, None, None) (take 2 boundDoc)
       = Inr (False, Some [boundFormat], None)"
    "\<not> isRcdFmtOpen (boundDoc ! 2)" "isHtmlJsonOpen (boundDoc ! 2)"
    "regionEnd boundDoc 2 = Some 6" "6 \<noteq> length boundDoc - 1"
    "getBoundFields toUpperCaseAscii (firstOf [boundFormat]) = Inr [''FLD1'', ''FLD2'']"
    "list_all (\<lambda>l. plainLine l \<and> \<not> isRcdFmtOpen l) (drop 7 boundDoc)"
    by code_simp+
  have m: "map cleanLine (filter (echoed None) (take 2 boundDoc)) = [boundDoc ! 0, boundDoc ! 1]"
    "map cleanLine (filter (echoed (Some [''FLD1'', ''FLD2''])) (drop 7 boundDoc))
       = [boundDoc ! 8, boundDoc ! 9]"
    by code_simp+
  have C: "getDdsFromSrc JSON_parse toUpperCaseAscii boundDoc =
            Inr (map cleanLine (filter (echoed None) (take 2 boundDoc))
                 @ map cleanLine (filter (echoed (Some [''FLD1'', ''FLD2''])) (drop (Suc 6) boundDoc)))"
    using T [THEN conjunct2, THEN conjunct2] p h by simp
  from g(1) A p e h(2-6,9) m B show ?thesis
    unfolding bf by blast
qed

end
